theory Spec2Isabelle
  imports Complex_Main "HOL-Library.Word" "HOL-Library.Sublist"
begin

section \<open>Faces, durations and the double-precision weight\<close>

text \<open>
  The selector widens every face id to \<open>uint64_t\<close> (\<open>std::vector<uint64_t> faceIds\<close>), so a
  face id is a 64-bit word, compared unsigned. A \<open>Face\<close> is known to the strategy only
  through \<open>getId()\<close>.
\<close>

type_synonym FaceId = "64 word"

datatype Face = Face (getId: FaceId)

text \<open>
  \<open>ndn::time::milliseconds\<close> is a duration with a signed 64-bit tick count: a \<open>64 word\<close> read
  with \<open>sint\<close>. \<open>milliseconds::max()\<close> is the largest count, \<open>2^63 - 1\<close>.
\<close>

type_synonym milliseconds = "64 word"

definition milliseconds_max :: milliseconds where
  "milliseconds_max = 0x7FFFFFFFFFFFFFFF"

definition milliseconds_lt :: "milliseconds \<Rightarrow> milliseconds \<Rightarrow> bool" where
  "milliseconds_lt a b = (sint a < sint b)"

text \<open>
  \<open>calculateWeight\<close> evaluates \<open>(1.0 * (max - lastDelay)) / max\<close> in \<open>double\<close>. A double is
  represented by the rational number it denotes. The tick counts are converted to double,
  which rounds an integer of more than 53 significant bits to the nearest double, ties to the
  even significand: \<open>exponent53 n\<close> is the number of low bits that do not fit, and
  \<open>round_nearest_even\<close> rounds them away.
\<close>

function exponent53 :: "nat \<Rightarrow> nat" where
  "exponent53 n = (if n < 2 ^ 53 then 0 else Suc (exponent53 (n div 2)))"
  by pat_completeness auto
termination
  by (relation "measure (\<lambda>n. n)") auto

declare exponent53.simps [simp del]

definition round_nearest_even :: "nat \<Rightarrow> nat" where
  "round_nearest_even n =
     (let e = exponent53 n; q = n div 2 ^ e; r = n mod 2 ^ e
      in if 2 ^ e < 2 * r \<or> (2 * r = 2 ^ e \<and> odd q) then (q + 1) * 2 ^ e else q * 2 ^ e)"

definition int64_to_double :: "64 word \<Rightarrow> rat" where
  "int64_to_double x =
     (if sint x < 0 then - of_nat (round_nearest_even (nat (- sint x)))
      else of_nat (round_nearest_even (nat (sint x))))"

record WeightedFace =
  face :: Face
  lastDelay :: milliseconds
  weight :: rat

text \<open>
  \<open>max - lastDelay\<close> is a subtraction of 64-bit counts (it wraps in the model where the
  C++ overflows); the product with \<open>1.0\<close> converts it to double exactly as
  \<open>int64_to_double\<close> does, and the quotient by the double of \<open>max\<close>, which is \<open>2^63\<close>, is
  exact.
\<close>

definition calculateWeight :: "WeightedFace \<Rightarrow> WeightedFace" where
  "calculateWeight w =
     w\<lparr>weight := int64_to_double (milliseconds_max - lastDelay w)
                  / int64_to_double milliseconds_max\<rparr>"

text \<open>The constructor \<open>WeightedFace(face_, delay = milliseconds(0))\<close>.\<close>

definition WeightedFace_new :: "Face \<Rightarrow> milliseconds \<Rightarrow> WeightedFace" where
  "WeightedFace_new theFace delay = calculateWeight \<lparr>face = theFace, lastDelay = delay, weight = 0\<rparr>"

definition WeightedFace_getId :: "WeightedFace \<Rightarrow> FaceId" where
  "WeightedFace_getId w = getId (face w)"

text \<open>
  \<open>operator<\<close>: by delay, then by face id. The ordered index uses it only to refuse an
  element equivalent to one it holds.
\<close>

definition WeightedFace_less :: "WeightedFace \<Rightarrow> WeightedFace \<Rightarrow> bool" where
  "WeightedFace_less a b =
     (if lastDelay a = lastDelay b then getId (face a) < getId (face b)
      else milliseconds_lt (lastDelay a) (lastDelay b))"

definition modifyWeightedFaceDelay :: "WeightedFace \<Rightarrow> milliseconds \<Rightarrow> WeightedFace" where
  "modifyWeightedFaceDelay weightedFace delay = calculateWeight (weightedFace\<lparr>lastDelay := delay\<rparr>)"

section \<open>The weighted-face table of a measurement entry\<close>

text \<open>
  \<open>WeightedFaceSet\<close> is a container with two unique indexes: ordered by \<open>operator<\<close> and
  hashed by face id. It is modelled by the sequence of its elements as the \<open>ByFaceId\<close> index
  iterates them; the hash order is not specified, and the model takes insertion order. An
  iterator of that index is a position in the sequence, \<open>end()\<close> being the length.
  \<open>find\<close> returns the position of the element with the given id, if any.
\<close>

type_synonym WeightedFaceSet = "WeightedFace list"

fun find_ById :: "WeightedFaceSet \<Rightarrow> FaceId \<Rightarrow> nat option" where
  "find_ById [] k = None"
| "find_ById (w # ws) k =
     (if WeightedFace_getId w = k then Some 0 else map_option Suc (find_ById ws k))"

text \<open>
  \<open>insert\<close> is refused when an element with the same key exists in either unique index: the
  same face id, or equivalent under \<open>operator<\<close>.
\<close>

definition insert_ById :: "WeightedFaceSet \<Rightarrow> WeightedFace \<Rightarrow> WeightedFaceSet" where
  "insert_ById ws w =
     (if list_ex (\<lambda>x. WeightedFace_getId x = WeightedFace_getId w
                     \<or> (\<not> WeightedFace_less x w \<and> \<not> WeightedFace_less w x)) ws
      then ws else ws @ [w])"

record MyMeasurementInfo =
  weightedFaces :: WeightedFaceSet

text \<open>
  \<open>updateFaceDelay\<close>: look the face up by id and, when it is there, \<open>modify\<close> that element
  with \<open>modifyWeightedFaceDelay\<close>. The modifier leaves the face id alone, and ids are unique
  in the container, so the modified element collides with no other element in either index
  and stays in the container.
\<close>

definition updateFaceDelay :: "Face \<Rightarrow> milliseconds \<Rightarrow> MyMeasurementInfo \<Rightarrow> MyMeasurementInfo" where
  "updateFaceDelay theFace delay info =
     (let facesById = weightedFaces info
      in case find_ById facesById (getId theFace) of
           None \<Rightarrow> info
         | Some faceEntry \<Rightarrow>
             info\<lparr>weightedFaces :=
                    facesById[faceEntry := modifyWeightedFaceDelay (facesById ! faceEntry) delay]\<rparr>)"

text \<open>A next hop of the FIB entry: its face and its cost (the cost is not read here).\<close>

datatype NextHop = NextHop (getFace: Face) (getCost: nat)

definition updateStoredNextHops_hop ::
  "WeightedFaceSet \<Rightarrow> WeightedFaceSet \<Rightarrow> NextHop \<Rightarrow> WeightedFaceSet" where
  "updateStoredNextHops_hop facesById updatedFacesById hop =
     (case find_ById facesById (getId (getFace hop)) of
        None \<Rightarrow> insert_ById updatedFacesById (WeightedFace_new (getFace hop) 0)
      | Some weightedIt \<Rightarrow> insert_ById updatedFacesById (facesById ! weightedIt))"

definition updateStoredNextHops :: "NextHop list \<Rightarrow> MyMeasurementInfo \<Rightarrow> MyMeasurementInfo" where
  "updateStoredNextHops nexthops info =
     info\<lparr>weightedFaces := foldl (updateStoredNextHops_hop (weightedFaces info)) [] nexthops\<rparr>"

text \<open>
  The element that \<open>updateStoredNextHops\<close> offers to the new container for a face: the
  stored element when the old table has the id, a fresh one otherwise.
\<close>

definition entry_for :: "WeightedFaceSet \<Rightarrow> Face \<Rightarrow> WeightedFace" where
  "entry_for facesById f =
     (case find_ById facesById (getId f) of
        None \<Rightarrow> WeightedFace_new f 0
      | Some weightedIt \<Rightarrow> facesById ! weightedIt)"

section \<open>Selecting the outgoing face\<close>

type_synonym Name = "string list"

record PitEntry =
  getName :: Name
  getOutRecords :: "Face list"
  violatesScope :: "Face \<Rightarrow> bool"

definition isEligibleFace :: "PitEntry \<Rightarrow> Face \<Rightarrow> Face \<Rightarrow> bool" where
  "isEligibleFace pitEntry downstream upstream =
     (getId downstream \<noteq> getId upstream \<and> \<not> violatesScope pitEntry upstream)"

text \<open>
  The accesses that are undefined behaviour in C++ are results of the model: reading
  \<open>faceIds[i]\<close> beyond the vector, and dereferencing or incrementing the past-the-end
  iterator.
\<close>

datatype error = VectorOutOfRange | IteratorPastEnd

definition faceIds_at :: "64 word list \<Rightarrow> nat \<Rightarrow> error + 64 word" where
  "faceIds_at faceIds i = (if i < length faceIds then Inr (faceIds ! i) else Inl VectorOutOfRange)"

definition deref :: "WeightedFaceSet \<Rightarrow> nat \<Rightarrow> error + WeightedFace" where
  "deref facesById faceEntry =
     (if faceEntry < length facesById then Inr (facesById ! faceEntry) else Inl IteratorPastEnd)"

definition increment :: "WeightedFaceSet \<Rightarrow> nat \<Rightarrow> error + nat" where
  "increment facesById faceEntry =
     (if faceEntry < length facesById then Inr (faceEntry + 1) else Inl IteratorPastEnd)"

text \<open>
  The test \<open>faceIds[i] <= selection && selection < faceIds[i + 1]\<close>; the second operand is
  read only when the first holds.
\<close>

definition in_interval :: "64 word list \<Rightarrow> 64 word \<Rightarrow> nat \<Rightarrow> error + bool" where
  "in_interval faceIds selection i =
     (case faceIds_at faceIds i of
        Inl e \<Rightarrow> Inl e
      | Inr lo \<Rightarrow>
          if lo \<le> selection
          then (case faceIds_at faceIds (i + 1) of Inl e \<Rightarrow> Inl e | Inr hi \<Rightarrow> Inr (selection < hi))
          else Inr False)"

text \<open>
  The body of the first loop before \<open>++faceEntry\<close>: when the sampled value lies in the
  interval of position \<open>i\<close>, the face at \<open>faceEntry\<close> is returned if it is eligible, and
  otherwise \<open>firstMatchIndex\<close> becomes \<open>i\<close> if \<open>i\<close> is smaller. (\<open>firstMatchFaceEntry\<close> is
  assigned with it and never read.) The result is the returned face or the value of
  \<open>firstMatchIndex\<close> after the body.
\<close>

datatype body = Return Face | Continue nat

definition firstLoop_body ::
  "PitEntry \<Rightarrow> Face \<Rightarrow> WeightedFaceSet \<Rightarrow> 64 word list \<Rightarrow> 64 word
   \<Rightarrow> nat \<Rightarrow> nat \<Rightarrow> nat \<Rightarrow> error + body" where
  "firstLoop_body pitEntry inFace facesById faceIds selection i firstMatchIndex faceEntry =
     (case in_interval faceIds selection i of
        Inl e \<Rightarrow> Inl e
      | Inr hit \<Rightarrow>
          if hit then
            (case deref facesById faceEntry of
               Inl e \<Rightarrow> Inl e
             | Inr weightedFace \<Rightarrow>
                 if isEligibleFace pitEntry inFace (face weightedFace)
                 then Inr (Return (face weightedFace))
                 else if i < firstMatchIndex then Inr (Continue i)
                 else Inr (Continue firstMatchIndex))
          else Inr (Continue firstMatchIndex))"

text \<open>
  The first loop, \<open>for (uint64_t i = 0; i < facesById.size() - 1; i++)\<close>, from its state
  \<open>i\<close>, \<open>firstMatchIndex\<close>, \<open>faceEntry\<close>. It ends by returning a face, or by falling
  through with the final \<open>firstMatchIndex\<close> and \<open>faceEntry\<close>. The counters are below
  \<open>2^64\<close> and are natural numbers; \<open>bound\<close> is the value of \<open>facesById.size() - 1\<close>.
\<close>

datatype scan = Selected Face | Exhausted nat nat

function firstLoop ::
  "PitEntry \<Rightarrow> Face \<Rightarrow> WeightedFaceSet \<Rightarrow> 64 word list \<Rightarrow> 64 word \<Rightarrow> nat
   \<Rightarrow> nat \<Rightarrow> nat \<Rightarrow> nat \<Rightarrow> error + scan" where
  "firstLoop pitEntry inFace facesById faceIds selection bound i firstMatchIndex faceEntry =
     (if i < bound then
        (case firstLoop_body pitEntry inFace facesById faceIds selection i firstMatchIndex
                faceEntry of
           Inl e \<Rightarrow> Inl e
         | Inr (Return f) \<Rightarrow> Inr (Selected f)
         | Inr (Continue firstMatchIndex') \<Rightarrow>
             (case increment facesById faceEntry of
                Inl e \<Rightarrow> Inl e
              | Inr faceEntry' \<Rightarrow>
                  firstLoop pitEntry inFace facesById faceIds selection bound (i + 1)
                    firstMatchIndex' faceEntry'))
      else Inr (Exhausted firstMatchIndex faceEntry))"
  by pat_completeness auto
termination
  by (relation "measure (\<lambda>(pitEntry, inFace, facesById, faceIds, selection, bound, i, _). bound - i)")
     auto

declare firstLoop.simps [simp del]

text \<open>The wrap-around loop, \<open>for (uint64_t i = 0; i < limit; i++)\<close>.\<close>

function wrapLoop ::
  "PitEntry \<Rightarrow> Face \<Rightarrow> WeightedFaceSet \<Rightarrow> nat \<Rightarrow> nat \<Rightarrow> nat \<Rightarrow> error + Face option" where
  "wrapLoop pitEntry inFace facesById limit i faceEntry =
     (if i < limit then
        (case deref facesById faceEntry of
           Inl e \<Rightarrow> Inl e
         | Inr weightedFace \<Rightarrow>
             if isEligibleFace pitEntry inFace (face weightedFace) then Inr (Some (face weightedFace))
             else (case increment facesById faceEntry of
                     Inl e \<Rightarrow> Inl e
                   | Inr faceEntry' \<Rightarrow> wrapLoop pitEntry inFace facesById limit (i + 1) faceEntry'))
      else Inr None)"
  by pat_completeness auto
termination
  by (relation "measure (\<lambda>(pitEntry, inFace, facesById, limit, i, _). limit - i)") auto

declare wrapLoop.simps [simp del]

text \<open>
  The part of \<open>selectOutgoingFace\<close> after the sample is drawn. \<open>facesById.size()\<close> is a
  \<open>size_t\<close>, so \<open>facesById.size() - 1\<close> is computed modulo \<open>2^64\<close>. \<open>firstMatchIndex\<close>
  starts as \<open>INVALID_FACEID\<close>, a constant of the forwarder's face header that is taken as a
  parameter.
\<close>

definition size_t :: "nat \<Rightarrow> nat" where
  "size_t n = n mod 2 ^ 64"

definition scanFaces ::
  "FaceId \<Rightarrow> PitEntry \<Rightarrow> Face \<Rightarrow> WeightedFaceSet \<Rightarrow> 64 word list \<Rightarrow> 64 word
   \<Rightarrow> error + Face option" where
  "scanFaces INVALID_FACEID pitEntry inFace facesById faceIds selection =
     (let sz = size_t (length facesById);
          bound = size_t (sz + 2 ^ 64 - 1)
      in case firstLoop pitEntry inFace facesById faceIds selection bound 0
                (unat INVALID_FACEID) 0 of
           Inl e \<Rightarrow> Inl e
         | Inr (Selected f) \<Rightarrow> Inr (Some f)
         | Inr (Exhausted firstMatchIndex faceEntry) \<Rightarrow>
             if faceEntry \<noteq> length facesById
                \<and> isEligibleFace pitEntry inFace (face (facesById ! faceEntry))
             then Inr (Some (face (facesById ! faceEntry)))
             else wrapLoop pitEntry inFace facesById (min firstMatchIndex sz) 0 0)"

text \<open>
  \<open>selectOutgoingFace\<close>. The piecewise-constant distribution and the Mersenne twister are
  the C++ library's; \<open>sample\<close> stands for \<open>dist(m_randomGenerator)\<close>: it draws from the
  distribution built on \<open>faceIds\<close> and \<open>weights\<close>, converts the draw to \<open>uint64_t\<close>, and
  returns it with the generator's next state. The function returns what it selected together
  with the measurement info and the generator as it leaves them.
\<close>

definition selectOutgoingFace ::
  "FaceId \<Rightarrow> (64 word list \<Rightarrow> rat list \<Rightarrow> 'g \<Rightarrow> 64 word \<times> 'g)
   \<Rightarrow> Face \<Rightarrow> MyMeasurementInfo \<Rightarrow> PitEntry \<Rightarrow> 'g
   \<Rightarrow> (error + Face option) \<times> MyMeasurementInfo \<times> 'g" where
  "selectOutgoingFace INVALID_FACEID sample inFace measurementsEntryInfo pitEntry m_randomGenerator =
     (let facesById = weightedFaces measurementsEntryInfo;
          faceIds = map WeightedFace_getId facesById @ [INVALID_FACEID];
          weights = map weight facesById;
          (selection, m_randomGenerator') = sample faceIds weights m_randomGenerator
      in (scanFaces INVALID_FACEID pitEntry inFace facesById faceIds selection,
          measurementsEntryInfo, m_randomGenerator'))"

section \<open>Demoting the faces of a PIT entry\<close>

text \<open>
  Modelled from the spec: the measurements accessor of the forwarder (\<open>get\<close>, \<open>getParent\<close>,
  \<open>extendLifetime\<close>). The measurements table maps a name to its entry, and an entry is
  handed out by its name. The accessor walks up the name tree and skips a name that has no
  entry: \<open>get\<close> of a PIT entry is the nearest entry at or above the PIT entry's name,
  \<open>getParent\<close> of an entry is the nearest entry above its name, and there is none once the
  root is passed. An entry keeps the durations, in seconds, by which \<open>extendLifetime\<close>
  extended it.
\<close>

record MeasurementsEntry =
  getStrategyInfo :: "MyMeasurementInfo option"
  extendedLifetime :: "nat list"

type_synonym Measurements = "Name \<Rightarrow> MeasurementsEntry option"

definition extendLifetime :: "MeasurementsEntry \<Rightarrow> nat \<Rightarrow> MeasurementsEntry" where
  "extendLifetime entry seconds = entry\<lparr>extendedLifetime := extendedLifetime entry @ [seconds]\<rparr>"

text \<open>The body of the loop of \<open>demoteFace\<close> on an entry that carries a \<open>MyMeasurementInfo\<close>.\<close>

definition demoteEntry :: "PitEntry \<Rightarrow> MeasurementsEntry \<Rightarrow> MeasurementsEntry" where
  "demoteEntry pitEntry measurementsEntry =
     (case getStrategyInfo measurementsEntry of
        None \<Rightarrow> measurementsEntry
      | Some measurementsEntryInfo \<Rightarrow>
          (extendLifetime measurementsEntry 16)
            \<lparr>getStrategyInfo :=
               Some (foldl (\<lambda>info entry. updateFaceDelay entry milliseconds_max info)
                       measurementsEntryInfo (getOutRecords pitEntry))\<rparr>)"

function nearest :: "Measurements \<Rightarrow> Name \<Rightarrow> Name option" where
  "nearest measurements n =
     (case measurements n of
        Some measurementsEntry \<Rightarrow> Some n
      | None \<Rightarrow> if n = [] then None else nearest measurements (butlast n))"
  by pat_completeness auto
termination
  by (relation "measure (\<lambda>(measurements, n). length n)") auto

declare nearest.simps [simp del]

definition accessor_get :: "Measurements \<Rightarrow> PitEntry \<Rightarrow> Name option" where
  "accessor_get measurements pitEntry = nearest measurements (getName pitEntry)"

definition accessor_getParent :: "Measurements \<Rightarrow> Name \<Rightarrow> Name option" where
  "accessor_getParent measurements n =
     (if n = [] then None else nearest measurements (butlast n))"

text \<open>
  The loop \<open>while (measurementsEntry != nullptr)\<close> of \<open>demoteFace\<close>, from the current
  \<open>measurementsEntry\<close>. It ends because \<open>getParent\<close> returns an entry with a shorter name.
\<close>

function demoteFace_loop :: "PitEntry \<Rightarrow> Name option \<Rightarrow> Measurements \<Rightarrow> Measurements" where
  "demoteFace_loop pitEntry None measurements = measurements"
| "demoteFace_loop pitEntry (Some n) measurements =
     (case measurements n of
        None \<Rightarrow> measurements
      | Some measurementsEntry \<Rightarrow>
          (let measurements' = measurements(n \<mapsto> demoteEntry pitEntry measurementsEntry)
           in demoteFace_loop pitEntry (accessor_getParent measurements' n) measurements'))"
  by pat_completeness auto
termination
proof (relation "measure (\<lambda>(pitEntry, measurementsEntry, measurements).
                   case measurementsEntry of None \<Rightarrow> 0 | Some n \<Rightarrow> Suc (length n))")
  show "wf (measure (\<lambda>(pitEntry :: PitEntry, measurementsEntry, measurements :: Measurements).
              case measurementsEntry of None \<Rightarrow> 0 | Some n \<Rightarrow> Suc (length n)))"
    by simp
next
  fix pitEntry :: PitEntry and n :: Name and measurements measurements' :: Measurements
    and measurementsEntry
  have shorter: "nearest ms k = Some m \<Longrightarrow> length m \<le> length k"
    for ms :: Measurements and k m
  proof (induction ms k rule: nearest.induct)
    case (1 ms k)
    show ?case
    proof (cases "ms k")
      case (Some e)
      with "1.prems" show ?thesis by (simp add: nearest.simps [of ms k])
    next
      case None
      show ?thesis
      proof (cases "k = []")
        case True
        from None True have "nearest ms k = None" by (subst nearest.simps) simp
        with "1.prems" show ?thesis by simp
      next
        case False
        with None "1.prems" have "nearest ms (butlast k) = Some m"
          by (simp add: nearest.simps [of ms k])
        from "1.IH" [OF None False this] show ?thesis by simp
      qed
    qed
  qed
  show "((pitEntry, accessor_getParent measurements' n, measurements'),
         pitEntry, Some n, measurements)
          \<in> measure (\<lambda>(pitEntry, measurementsEntry, measurements).
                case measurementsEntry of None \<Rightarrow> 0 | Some n \<Rightarrow> Suc (length n))"
  proof (cases "accessor_getParent measurements' n")
    case None
    then show ?thesis by simp
  next
    case (Some m)
    then have ne: "n \<noteq> []" and "nearest measurements' (butlast n) = Some m"
      by (simp_all add: accessor_getParent_def split: if_splits)
    from shorter [OF this(2)] have "length m \<le> length n - 1" by simp
    moreover from ne have "0 < length n" by simp
    ultimately have "length m < length n" by arith
    with Some show ?thesis by simp
  qed
qed

declare demoteFace_loop.simps [simp del]

definition demoteFace :: "PitEntry \<Rightarrow> Measurements \<Rightarrow> Measurements" where
  "demoteFace pitEntry measurements =
     demoteFace_loop pitEntry (accessor_get measurements pitEntry) measurements"

section \<open>Notions used to state the properties\<close>

text \<open>
  A weighted face is consistent when its weight is the one \<open>calculateWeight\<close> computes from
  its delay.
\<close>

definition weight_consistent :: "WeightedFace \<Rightarrow> bool" where
  "weight_consistent w = (calculateWeight w = w)"

text \<open>
  The invariant of a weighted face as the specification words it: the weight is the exact
  quotient \<open>(MAX - lastDelay) / MAX\<close>, the delay lies between 0 and \<open>MAX\<close>, the weight
  between 0 and 1.
\<close>

definition weight_invariant_spec :: "WeightedFace \<Rightarrow> bool" where
  "weight_invariant_spec w =
     (weight w = (of_int (sint milliseconds_max) - of_int (sint (lastDelay w)))
                   / of_int (sint milliseconds_max)
      \<and> 0 \<le> sint (lastDelay w) \<and> sint (lastDelay w) \<le> sint milliseconds_max
      \<and> 0 \<le> weight w \<and> weight w \<le> 1)"

text \<open>The specification's \<open>clamp(d, 0, MAX)\<close> on a duration.\<close>

definition clamp_delay :: "milliseconds \<Rightarrow> milliseconds" where
  "clamp_delay d =
     (if sint d < 0 then 0 else if sint milliseconds_max < sint d then milliseconds_max else d)"

text \<open>A demoted face: its delay is the maximum and its weight 0.\<close>

definition demoted :: "WeightedFace \<Rightarrow> bool" where
  "demoted w = (lastDelay w = milliseconds_max \<and> weight w = 0)"


text \<open>
  The selector as the specification words it, from the position \<open>k\<close> where the sampled
  value lands: the face at \<open>k\<close> if it is eligible; otherwise the first eligible face of the
  positions after \<open>k\<close>; otherwise the first eligible face of the positions from 0 up to
  \<open>min(k, N)\<close>; otherwise none.
\<close>

definition selector_spec :: "PitEntry \<Rightarrow> Face \<Rightarrow> WeightedFaceSet \<Rightarrow> nat \<Rightarrow> Face option" where
  "selector_spec pitEntry inFace facesById k =
     (let faces = map face facesById
      in if isEligibleFace pitEntry inFace (faces ! k) then Some (faces ! k)
         else case find (isEligibleFace pitEntry inFace) (drop (k + 1) faces) of
                Some f \<Rightarrow> Some f
              | None \<Rightarrow> find (isEligibleFace pitEntry inFace)
                          (take (min k (length faces)) faces))"

section \<open>Properties of the table operations\<close>

lemma find_ById_Some:
  "find_ById ws k = Some i \<Longrightarrow> i < length ws \<and> WeightedFace_getId (ws ! i) = k"
proof (induction ws arbitrary: i)
  case Nil
  then show ?case by simp
next
  case (Cons w ws)
  show ?case
  proof (cases "WeightedFace_getId w = k")
    case True
    with Cons.prems show ?thesis by simp
  next
    case False
    with Cons.prems obtain j where j: "find_ById ws k = Some j" and i: "i = Suc j"
      by auto
    from Cons.IH [OF j] i show ?thesis by simp
  qed
qed

lemma find_ById_None:
  "(find_ById ws k = None) = (k \<notin> WeightedFace_getId ` set ws)"
  by (induction ws) auto

lemma modifyWeightedFaceDelay_getId [simp]:
  "WeightedFace_getId (modifyWeightedFaceDelay w d) = WeightedFace_getId w"
  by (simp add: modifyWeightedFaceDelay_def calculateWeight_def WeightedFace_getId_def)

lemma updateFaceDelay_ids:
  "map WeightedFace_getId (weightedFaces (updateFaceDelay f d info))
     = map WeightedFace_getId (weightedFaces info)"
proof (cases "find_ById (weightedFaces info) (getId f)")
  case None
  then show ?thesis by (simp add: updateFaceDelay_def)
next
  case (Some i)
  from find_ById_Some [OF Some] show ?thesis
    by (simp add: updateFaceDelay_def Let_def Some map_update list_update_same_conv)
qed

text \<open>
  C9. \<open>updateFaceDelay\<close> changes at most the entry of the given face: when no entry has its
  id the measurement info is unchanged; in every case the sequence of face ids of the table
  is the same afterwards (same membership, and no duplicate id appears), and every entry
  with another id is unchanged, delay and weight included.
\<close>

theorem updateFaceDelay_frame:
  "(find_ById (weightedFaces info) (getId f) = None \<longrightarrow> updateFaceDelay f d info = info)
   \<and> map WeightedFace_getId (weightedFaces (updateFaceDelay f d info))
       = map WeightedFace_getId (weightedFaces info)
   \<and> (distinct (map WeightedFace_getId (weightedFaces info))
        \<longrightarrow> distinct (map WeightedFace_getId (weightedFaces (updateFaceDelay f d info))))
   \<and> (\<forall>j < length (weightedFaces info).
         WeightedFace_getId (weightedFaces info ! j) \<noteq> getId f
         \<longrightarrow> weightedFaces (updateFaceDelay f d info) ! j = weightedFaces info ! j)"
proof (intro conjI)
  show "find_ById (weightedFaces info) (getId f) = None \<longrightarrow> updateFaceDelay f d info = info"
    by (simp add: updateFaceDelay_def)
  show ids: "map WeightedFace_getId (weightedFaces (updateFaceDelay f d info))
       = map WeightedFace_getId (weightedFaces info)"
    by (rule updateFaceDelay_ids)
  show "distinct (map WeightedFace_getId (weightedFaces info))
        \<longrightarrow> distinct (map WeightedFace_getId (weightedFaces (updateFaceDelay f d info)))"
    by (simp add: ids)
  show "\<forall>j < length (weightedFaces info).
         WeightedFace_getId (weightedFaces info ! j) \<noteq> getId f
         \<longrightarrow> weightedFaces (updateFaceDelay f d info) ! j = weightedFaces info ! j"
  proof (cases "find_ById (weightedFaces info) (getId f)")
    case None
    then show ?thesis by (simp add: updateFaceDelay_def)
  next
    case (Some i)
    from find_ById_Some [OF Some] show ?thesis
      by (auto simp add: updateFaceDelay_def Let_def Some nth_list_update)
  qed
qed

theorem updateFaceDelay_frame_witness:
  "find_ById [\<lparr>face = Face 10, lastDelay = 0, weight = 1\<rparr>,
              \<lparr>face = Face 20, lastDelay = 0, weight = 1\<rparr>] (getId (Face 30)) = None
   \<and> updateFaceDelay (Face 30) 50
        \<lparr>weightedFaces = [\<lparr>face = Face 10, lastDelay = 0, weight = 1\<rparr>,
                          \<lparr>face = Face 20, lastDelay = 0, weight = 1\<rparr>]\<rparr>
       = \<lparr>weightedFaces = [\<lparr>face = Face 10, lastDelay = 0, weight = 1\<rparr>,
                           \<lparr>face = Face 20, lastDelay = 0, weight = 1\<rparr>]\<rparr>
   \<and> distinct (map WeightedFace_getId
        [\<lparr>face = Face 10, lastDelay = 0, weight = 1\<rparr>,
         \<lparr>face = Face 20, lastDelay = 0, weight = 1\<rparr>])
   \<and> distinct (map WeightedFace_getId (weightedFaces (updateFaceDelay (Face 10) 50
        \<lparr>weightedFaces = [\<lparr>face = Face 10, lastDelay = 0, weight = 1\<rparr>,
                          \<lparr>face = Face 20, lastDelay = 0, weight = 1\<rparr>]\<rparr>)))
   \<and> WeightedFace_getId \<lparr>face = Face 20, lastDelay = 0, weight = 1\<rparr> \<noteq> getId (Face 10)
   \<and> weightedFaces (updateFaceDelay (Face 10) 50
        \<lparr>weightedFaces = [\<lparr>face = Face 10, lastDelay = 0, weight = 1\<rparr>,
                          \<lparr>face = Face 20, lastDelay = 0, weight = 1\<rparr>]\<rparr>) ! 1
       = \<lparr>face = Face 20, lastDelay = 0, weight = 1\<rparr>"
  using updateFaceDelay_frame
      [of "\<lparr>weightedFaces = [\<lparr>face = Face 10, lastDelay = 0, weight = 1\<rparr>,
                             \<lparr>face = Face 20, lastDelay = 0, weight = 1\<rparr>]\<rparr>" "Face 30" 50]
    updateFaceDelay_frame
      [of "\<lparr>weightedFaces = [\<lparr>face = Face 10, lastDelay = 0, weight = 1\<rparr>,
                             \<lparr>face = Face 20, lastDelay = 0, weight = 1\<rparr>]\<rparr>" "Face 10" 50]
  by (simp add: WeightedFace_getId_def)

lemma int64_to_double_max: "int64_to_double milliseconds_max = 2 ^ 63"
  by (simp add: int64_to_double_def milliseconds_max_def round_nearest_even_def exponent53.simps
      Let_def)

lemma int64_to_double_0: "int64_to_double 0 = 0"
  by (simp add: int64_to_double_def round_nearest_even_def exponent53.simps Let_def)

lemma WeightedFace_new_0: "WeightedFace_new f 0 = \<lparr>face = f, lastDelay = 0, weight = 1\<rparr>"
  by (simp add: WeightedFace_new_def calculateWeight_def int64_to_double_max)

lemma WeightedFace_equiv_getId:
  assumes "\<not> WeightedFace_less x w" and "\<not> WeightedFace_less w x"
  shows "WeightedFace_getId x = WeightedFace_getId w"
proof (cases "lastDelay x = lastDelay w")
  case True
  with assms show ?thesis
    by (simp add: WeightedFace_less_def WeightedFace_getId_def)
next
  case False
  with assms have "sint (lastDelay x) = sint (lastDelay w)"
    by (simp add: WeightedFace_less_def milliseconds_lt_def)
  then have "lastDelay x = lastDelay w" by (rule signed_word_eqI)
  with False show ?thesis by simp
qed

lemma insert_ById_eq:
  "insert_ById ws w =
     (if WeightedFace_getId w \<in> WeightedFace_getId ` set ws then ws else ws @ [w])"
proof -
  have same: "(WeightedFace_getId x = WeightedFace_getId w
               \<or> (\<not> WeightedFace_less x w \<and> \<not> WeightedFace_less w x))
              = (WeightedFace_getId x = WeightedFace_getId w)" for x
    using WeightedFace_equiv_getId [of x w] by blast
  have "list_ex (\<lambda>x. WeightedFace_getId x = WeightedFace_getId w) ws
        = (WeightedFace_getId w \<in> WeightedFace_getId ` set ws)"
    by (induction ws) auto
  then show ?thesis by (simp add: insert_ById_def same)
qed

lemma entry_for_getId [simp]: "WeightedFace_getId (entry_for old f) = getId f"
proof (cases "find_ById old (getId f)")
  case None
  then show ?thesis
    by (simp add: entry_for_def WeightedFace_new_0 WeightedFace_getId_def)
next
  case (Some i)
  with find_ById_Some [OF Some] show ?thesis by (simp add: entry_for_def)
qed

lemma updateStoredNextHops_hop_eq:
  "updateStoredNextHops_hop old upd hop = insert_ById upd (entry_for old (getFace hop))"
  by (simp add: updateStoredNextHops_hop_def entry_for_def split: option.split)

lemma foldl_hop_ids:
  "WeightedFace_getId ` set (foldl (updateStoredNextHops_hop old) upd hops)
     = WeightedFace_getId ` set upd \<union> (\<lambda>hop. getId (getFace hop)) ` set hops"
proof (induction hops arbitrary: upd)
  case Nil
  then show ?case by simp
next
  case (Cons hop hops)
  have "WeightedFace_getId ` set (updateStoredNextHops_hop old upd hop)
          = insert (getId (getFace hop)) (WeightedFace_getId ` set upd)"
    by (auto simp add: updateStoredNextHops_hop_eq insert_ById_eq)
  with Cons.IH [of "updateStoredNextHops_hop old upd hop"] show ?case by auto
qed

lemma foldl_hop_entries:
  "\<forall>x \<in> set upd. entry_for old (face x) = x
   \<Longrightarrow> \<forall>x \<in> set (foldl (updateStoredNextHops_hop old) upd hops). entry_for old (face x) = x"
proof (induction hops arbitrary: upd)
  case Nil
  then show ?case by simp
next
  case (Cons hop hops)
  have face: "face (entry_for old (getFace hop)) = getFace hop"
    using entry_for_getId [of old "getFace hop"]
    by (simp add: WeightedFace_getId_def Face.expand)
  have "\<forall>x \<in> set (updateStoredNextHops_hop old upd hop). entry_for old (face x) = x"
    using Cons.prems face by (auto simp add: updateStoredNextHops_hop_eq insert_ById_eq)
  from Cons.IH [OF this] show ?case by simp
qed

lemma foldl_hop_distinct:
  "distinct (map WeightedFace_getId upd)
   \<Longrightarrow> distinct (map WeightedFace_getId (foldl (updateStoredNextHops_hop old) upd hops))"
proof (induction hops arbitrary: upd)
  case Nil
  then show ?case by simp
next
  case (Cons hop hops)
  have "distinct (map WeightedFace_getId (updateStoredNextHops_hop old upd hop))"
    using Cons.prems by (auto simp add: updateStoredNextHops_hop_eq insert_ById_eq)
  from Cons.IH [OF this] show ?case by simp
qed

text \<open>
  C4. After \<open>updateStoredNextHops\<close> the face ids of the table are exactly the face ids of
  the next-hop list, whatever the table held before.
\<close>

theorem updateStoredNextHops_membership:
  "WeightedFace_getId ` set (weightedFaces (updateStoredNextHops nexthops info))
     = (\<lambda>hop. getId (getFace hop)) ` set nexthops"
  by (simp add: updateStoredNextHops_def foldl_hop_ids)

lemma updateStoredNextHops_entry:
  assumes "k \<in> (\<lambda>hop. getId (getFace hop)) ` set nexthops"
  shows "\<exists>j. find_ById (weightedFaces (updateStoredNextHops nexthops info)) k = Some j
             \<and> weightedFaces (updateStoredNextHops nexthops info) ! j
                 = entry_for (weightedFaces info) (Face k)"
proof -
  let ?new = "weightedFaces (updateStoredNextHops nexthops info)"
  have "k \<in> WeightedFace_getId ` set ?new"
    using assms by (simp add: updateStoredNextHops_def foldl_hop_ids)
  then obtain j where j: "find_ById ?new k = Some j"
    using find_ById_None [of ?new k] by (cases "find_ById ?new k") auto
  from find_ById_Some [OF j] have lt: "j < length ?new" and id: "WeightedFace_getId (?new ! j) = k"
    by simp_all
  have "\<forall>x \<in> set ?new. entry_for (weightedFaces info) (face x) = x"
    using foldl_hop_entries [of "[]" "weightedFaces info" nexthops]
    by (simp add: updateStoredNextHops_def)
  with lt have "entry_for (weightedFaces info) (face (?new ! j)) = ?new ! j"
    using nth_mem by blast
  moreover from id have "face (?new ! j) = Face k"
    by (simp add: WeightedFace_getId_def Face.expand)
  ultimately show ?thesis using j by simp
qed

text \<open>
  C5. \<open>updateStoredNextHops\<close> keeps what was learned: a face of the next-hop list whose
  id was in the table has, afterwards, the very element the table held for it (same delay, same
  weight), and a face of the next-hop list whose id was not in the table has an element with
  delay 0 and weight 1.
\<close>

theorem updateStoredNextHops_preserves:
  "(\<forall>k i. k \<in> (\<lambda>hop. getId (getFace hop)) ` set nexthops
           \<and> find_ById (weightedFaces info) k = Some i
      \<longrightarrow> (\<exists>j. find_ById (weightedFaces (updateStoredNextHops nexthops info)) k = Some j
              \<and> weightedFaces (updateStoredNextHops nexthops info) ! j = weightedFaces info ! i))
   \<and> (\<forall>k. k \<in> (\<lambda>hop. getId (getFace hop)) ` set nexthops
           \<and> find_ById (weightedFaces info) k = None
      \<longrightarrow> (\<exists>j. find_ById (weightedFaces (updateStoredNextHops nexthops info)) k = Some j
              \<and> weightedFaces (updateStoredNextHops nexthops info) ! j
                  = \<lparr>face = Face k, lastDelay = 0, weight = 1\<rparr>))"
proof (intro conjI allI impI)
  fix k i
  assume a: "k \<in> (\<lambda>hop. getId (getFace hop)) ` set nexthops
             \<and> find_ById (weightedFaces info) k = Some i"
  then have mem: "k \<in> (\<lambda>hop. getId (getFace hop)) ` set nexthops"
    and e: "entry_for (weightedFaces info) (Face k) = weightedFaces info ! i"
    by (simp_all add: entry_for_def)
  from updateStoredNextHops_entry [OF mem, of info] e
  show "\<exists>j. find_ById (weightedFaces (updateStoredNextHops nexthops info)) k = Some j
              \<and> weightedFaces (updateStoredNextHops nexthops info) ! j = weightedFaces info ! i"
    by (elim exE conjE, intro exI conjI) (assumption, simp only:)
next
  fix k
  assume a: "k \<in> (\<lambda>hop. getId (getFace hop)) ` set nexthops
             \<and> find_ById (weightedFaces info) k = None"
  then have mem: "k \<in> (\<lambda>hop. getId (getFace hop)) ` set nexthops"
    and e: "entry_for (weightedFaces info) (Face k) = \<lparr>face = Face k, lastDelay = 0, weight = 1\<rparr>"
    by (simp_all add: entry_for_def WeightedFace_new_0)
  from updateStoredNextHops_entry [OF mem, of info] e
  show "\<exists>j. find_ById (weightedFaces (updateStoredNextHops nexthops info)) k = Some j
              \<and> weightedFaces (updateStoredNextHops nexthops info) ! j
                  = \<lparr>face = Face k, lastDelay = 0, weight = 1\<rparr>"
    by (elim exE conjE, intro exI conjI) (assumption, simp only:)
qed

theorem updateStoredNextHops_preserves_witness:
  "10 \<in> (\<lambda>hop. getId (getFace hop)) ` set [NextHop (Face 10) 0, NextHop (Face 30) 0]
   \<and> find_ById [\<lparr>face = Face 10, lastDelay = 5000, weight = 9007199254740987 / 9007199254740992\<rparr>,
                 \<lparr>face = Face 20, lastDelay = 0, weight = 1\<rparr>] 10 = Some 0
   \<and> (\<exists>j. find_ById (weightedFaces (updateStoredNextHops [NextHop (Face 10) 0, NextHop (Face 30) 0]
              \<lparr>weightedFaces =
                 [\<lparr>face = Face 10, lastDelay = 5000, weight = 9007199254740987 / 9007199254740992\<rparr>,
                  \<lparr>face = Face 20, lastDelay = 0, weight = 1\<rparr>]\<rparr>)) 10 = Some j
          \<and> weightedFaces (updateStoredNextHops [NextHop (Face 10) 0, NextHop (Face 30) 0]
              \<lparr>weightedFaces =
                 [\<lparr>face = Face 10, lastDelay = 5000, weight = 9007199254740987 / 9007199254740992\<rparr>,
                  \<lparr>face = Face 20, lastDelay = 0, weight = 1\<rparr>]\<rparr>) ! j
             = \<lparr>face = Face 10, lastDelay = 5000, weight = 9007199254740987 / 9007199254740992\<rparr>)
   \<and> 30 \<in> (\<lambda>hop. getId (getFace hop)) ` set [NextHop (Face 10) 0, NextHop (Face 30) 0]
   \<and> find_ById [\<lparr>face = Face 10, lastDelay = 5000, weight = 9007199254740987 / 9007199254740992\<rparr>,
                 \<lparr>face = Face 20, lastDelay = 0, weight = 1\<rparr>] 30 = None
   \<and> (\<exists>j. find_ById (weightedFaces (updateStoredNextHops [NextHop (Face 10) 0, NextHop (Face 30) 0]
              \<lparr>weightedFaces =
                 [\<lparr>face = Face 10, lastDelay = 5000, weight = 9007199254740987 / 9007199254740992\<rparr>,
                  \<lparr>face = Face 20, lastDelay = 0, weight = 1\<rparr>]\<rparr>)) 30 = Some j
          \<and> weightedFaces (updateStoredNextHops [NextHop (Face 10) 0, NextHop (Face 30) 0]
              \<lparr>weightedFaces =
                 [\<lparr>face = Face 10, lastDelay = 5000, weight = 9007199254740987 / 9007199254740992\<rparr>,
                  \<lparr>face = Face 20, lastDelay = 0, weight = 1\<rparr>]\<rparr>) ! j
             = \<lparr>face = Face 30, lastDelay = 0, weight = 1\<rparr>)"
proof -
  let ?H = "[NextHop (Face 10) 0, NextHop (Face 30) 0]"
  let ?info = "\<lparr>weightedFaces =
                 [\<lparr>face = Face 10, lastDelay = 5000, weight = 9007199254740987 / 9007199254740992\<rparr>,
                  \<lparr>face = Face 20, lastDelay = 0, weight = 1\<rparr>]\<rparr>"
  have m10: "10 \<in> (\<lambda>hop. getId (getFace hop)) ` set ?H"
    and m30: "30 \<in> (\<lambda>hop. getId (getFace hop)) ` set ?H"
    by simp_all
  have f10: "find_ById (weightedFaces ?info) 10 = Some 0"
    and f30: "find_ById (weightedFaces ?info) 30 = None"
    by (simp_all add: WeightedFace_getId_def)
  from updateStoredNextHops_preserves [of ?H ?info] m10 f10
  have "\<exists>j. find_ById (weightedFaces (updateStoredNextHops ?H ?info)) 10 = Some j
          \<and> weightedFaces (updateStoredNextHops ?H ?info) ! j = weightedFaces ?info ! 0"
    by blast
  moreover from updateStoredNextHops_preserves [of ?H ?info] m30 f30
  have "\<exists>j. find_ById (weightedFaces (updateStoredNextHops ?H ?info)) 30 = Some j
          \<and> weightedFaces (updateStoredNextHops ?H ?info) ! j
              = \<lparr>face = Face 30, lastDelay = 0, weight = 1\<rparr>"
    by blast
  ultimately show ?thesis using m10 m30 f10 f30 by simp
qed

section \<open>Properties of the weight\<close>

text \<open>
  The double of a count below \<open>2^63\<close> is at most \<open>2^63\<close>: the significand kept by
  \<open>round_nearest_even\<close> is below \<open>2^53\<close>, and at most 10 low bits are rounded away.
\<close>

lemma exponent53_quotient: "n div 2 ^ exponent53 n < 2 ^ 53"
proof (induction n rule: exponent53.induct)
  case (1 n)
  show ?case
  proof (cases "n < 2 ^ 53")
    case True
    then show ?thesis by (simp add: exponent53.simps)
  next
    case False
    with 1 have "n div 2 div 2 ^ exponent53 (n div 2) < 2 ^ 53" by simp
    moreover have "exponent53 n = Suc (exponent53 (n div 2))"
      using False by (subst exponent53.simps) simp
    ultimately show ?thesis by (simp add: div_mult2_eq)
  qed
qed

lemma exponent53_le: "n < 2 ^ 53 * 2 ^ k \<Longrightarrow> exponent53 n \<le> k"
proof (induction k arbitrary: n)
  case 0
  then show ?case by (simp add: exponent53.simps)
next
  case (Suc k)
  show ?case
  proof (cases "n < 2 ^ 53")
    case True
    then show ?thesis by (simp add: exponent53.simps)
  next
    case False
    define m :: nat where "m = 2 ^ 53 * 2 ^ k"
    from Suc.prems have "n < 2 * m" by (simp add: m_def)
    then have "n div 2 < m" by arith
    then have "exponent53 (n div 2) \<le> k" unfolding m_def by (rule Suc.IH)
    moreover have "exponent53 n = Suc (exponent53 (n div 2))"
      using False by (subst exponent53.simps) simp
    ultimately show ?thesis by simp
  qed
qed

lemma round_nearest_even_le:
  assumes "n < 2 ^ 63"
  shows "round_nearest_even n \<le> 2 ^ 63"
proof -
  let ?e = "exponent53 n"
  let ?q = "n div 2 ^ ?e"
  from assms have e: "?e \<le> 10" using exponent53_le [of n 10] by simp
  have "?q + 1 \<le> 2 ^ 53" using exponent53_quotient [of n] by simp
  then have "(?q + 1) * 2 ^ ?e \<le> 2 ^ 53 * 2 ^ ?e" by (rule mult_right_mono) simp
  also have "\<dots> = 2 ^ (53 + ?e)" by (simp add: power_add)
  also from e have "\<dots> \<le> (2::nat) ^ 63"
    by (intro power_increasing) simp_all
  finally have up: "(?q + 1) * 2 ^ ?e \<le> 2 ^ 63" .
  have "?q * 2 ^ ?e \<le> (?q + 1) * 2 ^ ?e" by simp
  from this up have down: "?q * 2 ^ ?e \<le> 2 ^ 63" by (rule order_trans)
  from up down show ?thesis by (simp add: round_nearest_even_def Let_def)
qed

lemma int64_to_double_nonneg_bounds:
  assumes "0 \<le> sint x"
  shows "0 \<le> int64_to_double x \<and> int64_to_double x \<le> 2 ^ 63"
proof -
  have "sint x < 2 ^ 63" using sint_lt [of x] by simp
  with assms have "nat (sint x) < 2 ^ 63" by (simp add: nat_less_iff)
  from round_nearest_even_le [OF this]
  have "(of_nat (round_nearest_even (nat (sint x))) :: rat) \<le> of_nat (2 ^ 63)"
    by (simp only: of_nat_le_iff)
  with assms show ?thesis by (simp add: int64_to_double_def)
qed

lemma sint_max_minus:
  assumes "0 \<le> sint (d :: 64 word)"
  shows "sint (milliseconds_max - d) = 2 ^ 63 - 1 - sint d"
proof -
  have m: "sint milliseconds_max = 2 ^ 63 - 1" by (simp add: milliseconds_max_def)
  have "sint d < 2 ^ 63" using sint_lt [of d] by simp
  with assms have "signed_take_bit 63 (2 ^ 63 - 1 - sint d) = 2 ^ 63 - 1 - sint d"
    by (intro signed_take_bit_int_eq_self) simp_all
  then show ?thesis by (simp add: sint_word_diff m)
qed

lemma calculateWeight_bounds:
  assumes "0 \<le> sint (lastDelay w)"
  shows "0 \<le> weight (calculateWeight w) \<and> weight (calculateWeight w) \<le> 1"
proof -
  have "sint (lastDelay w) < 2 ^ 63" using sint_lt [of "lastDelay w"] by simp
  with assms have "0 \<le> sint (milliseconds_max - lastDelay w)"
    by (simp add: sint_max_minus)
  from int64_to_double_nonneg_bounds [OF this] show ?thesis
    by (simp add: calculateWeight_def int64_to_double_max)
qed

text \<open>
  Rounding moves a count by at most half a unit of the last place kept, so that the weight of a
  delay that is not negative is within \<open>2^-53\<close> of the exact quotient.
\<close>

lemma round_nearest_even_error:
  "2 * (round_nearest_even n - n) \<le> 2 ^ exponent53 n
   \<and> 2 * (n - round_nearest_even n) \<le> 2 ^ exponent53 n"
proof -
  define e where "e = exponent53 n"
  define q where "q = n div 2 ^ e"
  define r where "r = n mod 2 ^ e"
  have n: "n = q * 2 ^ e + r" by (simp only: q_def r_def div_mult_mod_eq)
  have r: "r < 2 ^ e" by (simp add: r_def)
  show ?thesis
  proof (cases "2 ^ e < 2 * r \<or> (2 * r = 2 ^ e \<and> odd q)")
    case True
    then have "round_nearest_even n = (q + 1) * 2 ^ e"
      by (simp add: round_nearest_even_def Let_def e_def q_def r_def)
    then have "round_nearest_even n = n + (2 ^ e - r)" using n r by (simp add: algebra_simps)
    moreover from True have "2 ^ e \<le> 2 * r" by auto
    ultimately show ?thesis using r unfolding e_def [symmetric] by simp
  next
    case False
    then have "round_nearest_even n = q * 2 ^ e"
      by (simp add: round_nearest_even_def Let_def e_def q_def r_def)
    then have "n = round_nearest_even n + r" using n by simp
    moreover from False have "2 * r \<le> 2 ^ e" by auto
    ultimately show ?thesis unfolding e_def [symmetric] by simp
  qed
qed

lemma round_nearest_even_close:
  assumes "n < 2 ^ 63"
  shows "\<bar>(of_nat (round_nearest_even n) :: rat) - of_nat n\<bar> \<le> 512"
proof -
  from assms have "exponent53 n \<le> 10" using exponent53_le [of n 10] by simp
  then have "(2::nat) ^ exponent53 n \<le> 2 ^ 10" by (intro power_increasing) simp_all
  with round_nearest_even_error [of n]
  have a: "round_nearest_even n - n \<le> 512" and b: "n - round_nearest_even n \<le> 512"
    by simp_all
  show ?thesis
  proof (cases "n \<le> round_nearest_even n")
    case True
    then have "\<bar>(of_nat (round_nearest_even n) :: rat) - of_nat n\<bar>
                 = of_nat (round_nearest_even n - n)"
      by (simp add: of_nat_diff)
    also from a have "\<dots> \<le> of_nat 512" by (simp only: of_nat_le_iff)
    finally show ?thesis by simp
  next
    case False
    then have "\<bar>(of_nat (round_nearest_even n) :: rat) - of_nat n\<bar>
                 = of_nat (n - round_nearest_even n)"
      by (simp add: of_nat_diff abs_if)
    also from b have "\<dots> \<le> of_nat 512" by (simp only: of_nat_le_iff)
    finally show ?thesis by simp
  qed
qed

lemma quotient_close:
  fixes x y A :: rat
  assumes A: "1 < A" and x: "0 \<le> x" "x \<le> A - 1" and d: "\<bar>y - x\<bar> \<le> c"
  shows "\<bar>y / A - x / (A - 1)\<bar> \<le> (c + 1) / A"
proof -
  from A have pos: "0 < A" "0 < A - 1" by simp_all
  have "y / A - x / (A - 1) = (y - x) / A - x / (A * (A - 1))"
    using pos by (simp add: field_simps)
  then have "\<bar>y / A - x / (A - 1)\<bar> \<le> \<bar>(y - x) / A\<bar> + \<bar>x / (A * (A - 1))\<bar>"
    by (simp only: abs_triangle_ineq4)
  moreover have "\<bar>(y - x) / A\<bar> \<le> c / A"
    using d pos by (simp add: divide_right_mono)
  moreover have "\<bar>x / (A * (A - 1))\<bar> \<le> 1 / A"
  proof -
    from x pos have "x / (A * (A - 1)) \<le> (A - 1) / (A * (A - 1))"
      by (intro divide_right_mono) simp_all
    also from pos have "\<dots> = 1 / A" by simp
    finally have "x / (A * (A - 1)) \<le> 1 / A" .
    moreover from x pos have "0 \<le> x / (A * (A - 1))" by simp
    ultimately show ?thesis by (simp only: abs_of_nonneg)
  qed
  ultimately have "\<bar>y / A - x / (A - 1)\<bar> \<le> c / A + 1 / A" by linarith
  then show ?thesis by (simp add: add_divide_distrib)
qed

lemma calculateWeight_close:
  assumes "0 \<le> sint (lastDelay w)"
  shows "\<bar>weight (calculateWeight w)
          - (of_int (sint milliseconds_max) - of_int (sint (lastDelay w)))
              / of_int (sint milliseconds_max)\<bar> \<le> 1 / 2 ^ 53"
proof -
  define n where "n = nat (sint (milliseconds_max - lastDelay w))"
  have lt: "sint (lastDelay w) < 2 ^ 63" using sint_lt [of "lastDelay w"] by simp
  with assms have s: "sint (milliseconds_max - lastDelay w) = 2 ^ 63 - 1 - sint (lastDelay w)"
    by (simp add: sint_max_minus)
  with assms lt have n: "n < 2 ^ 63" and n0: "int n = 2 ^ 63 - 1 - sint (lastDelay w)"
    by (simp_all add: n_def)
  define x :: rat where "x = of_nat n"
  define y :: rat where "y = of_nat (round_nearest_even n)"
  define A :: rat where "A = 2 ^ 63"
  have "int64_to_double (milliseconds_max - lastDelay w) = y"
    using assms lt s by (simp add: int64_to_double_def n_def y_def)
  then have w: "weight (calculateWeight w) = y / A"
    by (simp add: calculateWeight_def int64_to_double_max A_def)
  have m: "(of_int (sint milliseconds_max) :: rat) = A - 1"
    by (simp add: milliseconds_max_def A_def)
  have "(of_int (int n) :: rat) = of_int (2 ^ 63 - 1 - sint (lastDelay w))"
    by (simp only: n0)
  then have xd: "x = (A - 1) - of_int (sint (lastDelay w))"
    by (simp add: x_def A_def)
  have ex: "(of_int (sint milliseconds_max) - of_int (sint (lastDelay w)))
              / of_int (sint milliseconds_max) = x / (A - 1)"
    by (simp only: m xd)
  from round_nearest_even_close [OF n] have d: "\<bar>y - x\<bar> \<le> 512" by (simp add: x_def y_def)
  have x0: "0 \<le> x" by (simp add: x_def)
  from assms have "(0::rat) \<le> of_int (sint (lastDelay w))" by (simp only: of_int_0_le_iff)
  then have x1: "x \<le> A - 1" unfolding xd by linarith
  have A: "1 < A" by (simp add: A_def)
  from quotient_close [OF A x0 x1 d] have "\<bar>y / A - x / (A - 1)\<bar> \<le> (512 + 1) / A" .
  also have "\<dots> \<le> 1 / 2 ^ 53" by (simp add: A_def)
  finally show ?thesis by (simp only: w ex)
qed

lemma calculateWeight_idem [simp]: "calculateWeight (calculateWeight w) = calculateWeight w"
  by (simp add: calculateWeight_def)

lemma weight_consistent_new: "weight_consistent (WeightedFace_new f d)"
  by (simp add: weight_consistent_def WeightedFace_new_def)

lemma weight_consistent_modify: "weight_consistent (modifyWeightedFaceDelay w d)"
  by (simp add: weight_consistent_def modifyWeightedFaceDelay_def)

lemma weight_consistent_updateFaceDelay:
  assumes "list_all weight_consistent (weightedFaces info)"
  shows "list_all weight_consistent (weightedFaces (updateFaceDelay f d info))"
proof (cases "find_ById (weightedFaces info) (getId f)")
  case None
  with assms show ?thesis by (simp add: updateFaceDelay_def)
next
  case (Some i)
  have "weight_consistent x"
    if "x \<in> set ((weightedFaces info)[i := modifyWeightedFaceDelay (weightedFaces info ! i) d])"
    for x
  proof -
    from that set_update_subset_insert [of "weightedFaces info" i]
    have "x = modifyWeightedFaceDelay (weightedFaces info ! i) d \<or> x \<in> set (weightedFaces info)"
      by blast
    with assms weight_consistent_modify show ?thesis by (auto simp add: list_all_iff)
  qed
  then show ?thesis by (simp add: updateFaceDelay_def Let_def Some list_all_iff)
qed

lemma weight_consistent_entry_for:
  assumes "list_all weight_consistent old"
  shows "weight_consistent (entry_for old f)"
proof (cases "find_ById old (getId f)")
  case None
  then show ?thesis by (simp add: entry_for_def weight_consistent_new)
next
  case (Some i)
  from find_ById_Some [OF Some] have "old ! i \<in> set old" by simp
  with assms show ?thesis by (simp add: entry_for_def Some list_all_iff)
qed

lemma weight_consistent_updateStoredNextHops:
  assumes "list_all weight_consistent (weightedFaces info)"
  shows "list_all weight_consistent (weightedFaces (updateStoredNextHops nexthops info))"
proof -
  have "\<forall>x \<in> set (weightedFaces (updateStoredNextHops nexthops info)).
          entry_for (weightedFaces info) (face x) = x"
    using foldl_hop_entries [of "[]" "weightedFaces info" nexthops]
    by (simp add: updateStoredNextHops_def)
  then have "\<forall>x \<in> set (weightedFaces (updateStoredNextHops nexthops info)). weight_consistent x"
    using weight_consistent_entry_for [OF assms] by metis
  then show ?thesis by (simp add: list_all_iff)
qed

lemma weight_consistent_facts:
  assumes "weight_consistent w"
  shows "sint (lastDelay w) \<le> sint milliseconds_max"
    and "0 \<le> sint (lastDelay w) \<Longrightarrow> 0 \<le> weight w \<and> weight w \<le> 1"
    and "lastDelay w = milliseconds_max \<Longrightarrow> weight w = 0"
    and "lastDelay w = 0 \<Longrightarrow> weight w = 1"
proof -
  from assms have w: "weight w = weight (calculateWeight w)"
    by (simp add: weight_consistent_def)
  show "sint (lastDelay w) \<le> sint milliseconds_max"
    using sint_lt [of "lastDelay w"] by (simp add: milliseconds_max_def)
  show "0 \<le> weight w \<and> weight w \<le> 1" if "0 \<le> sint (lastDelay w)"
    using calculateWeight_bounds [OF that] w by simp
  show "weight w = 0" if "lastDelay w = milliseconds_max"
    using that w by (simp add: calculateWeight_def int64_to_double_def round_nearest_even_def exponent53.simps Let_def)
  show "weight w = 1" if "lastDelay w = 0"
    using that w by (simp add: calculateWeight_def int64_to_double_max)
qed

lemmas weight_eval = calculateWeight_def int64_to_double_def milliseconds_max_def
  round_nearest_even_def exponent53.simps Let_def

text \<open>
  The delay-setting operation does not clamp. \<open>updateFaceDelay\<close> with a delay of -5 ms (the
  delay of \<open>beforeSatisfyInterest\<close> is a difference of two readings of the system clock,
  which can step backwards) stores -5, where \<open>clamp(d, 0, MAX)\<close> is 0.
\<close>

theorem updateFaceDelay_clamp_counterexample:
  "lastDelay (weightedFaces (updateFaceDelay (Face 10) (- 5)
      \<lparr>weightedFaces = [WeightedFace_new (Face 10) 0]\<rparr>) ! 0) = - 5
   \<and> clamp_delay (- 5) = 0
   \<and> lastDelay (weightedFaces (updateFaceDelay (Face 10) (- 5)
      \<lparr>weightedFaces = [WeightedFace_new (Face 10) 0]\<rparr>) ! 0) \<noteq> clamp_delay (- 5)"
  by (simp add: clamp_delay_def updateFaceDelay_def WeightedFace_new_def
      WeightedFace_getId_def modifyWeightedFaceDelay_def calculateWeight_def)

text \<open>
  C7, as the code has it. For every duration \<open>d\<close>, \<open>modifyWeightedFaceDelay\<close> stores \<open>d\<close>
  itself as \<open>lastDelay\<close>, keeps the face, and recomputes the weight from the stored value as
  \<open>calculateWeight\<close> does; the stored value is \<open>clamp(d, 0, MAX)\<close> whenever \<open>d\<close> is not
  negative (no duration exceeds \<open>MAX\<close>). \<open>updateFaceDelay\<close> applies exactly this to the entry
  of the given face.
\<close>

theorem modifyWeightedFaceDelay_stores:
  "lastDelay (modifyWeightedFaceDelay w d) = d
   \<and> weight (modifyWeightedFaceDelay w d)
       = int64_to_double (milliseconds_max - d) / int64_to_double milliseconds_max
   \<and> face (modifyWeightedFaceDelay w d) = face w
   \<and> (0 \<le> sint d \<longrightarrow> lastDelay (modifyWeightedFaceDelay w d) = clamp_delay d)
   \<and> (\<forall>j. find_ById (weightedFaces info) (getId f) = Some j
          \<longrightarrow> weightedFaces (updateFaceDelay f d info) ! j
                = modifyWeightedFaceDelay (weightedFaces info ! j) d)"
proof -
  have "sint d \<le> sint milliseconds_max"
    using sint_lt [of d] by (simp add: milliseconds_max_def)
  then have "0 \<le> sint d \<longrightarrow> clamp_delay d = d" by (simp add: clamp_delay_def)
  moreover have "\<forall>j. find_ById (weightedFaces info) (getId f) = Some j
          \<longrightarrow> weightedFaces (updateFaceDelay f d info) ! j
                = modifyWeightedFaceDelay (weightedFaces info ! j) d"
  proof (intro allI impI)
    fix j assume j: "find_ById (weightedFaces info) (getId f) = Some j"
    from find_ById_Some [OF j] show "weightedFaces (updateFaceDelay f d info) ! j
                = modifyWeightedFaceDelay (weightedFaces info ! j) d"
      by (simp add: updateFaceDelay_def Let_def j)
  qed
  ultimately show ?thesis
    by (simp add: modifyWeightedFaceDelay_def calculateWeight_def)
qed

theorem modifyWeightedFaceDelay_stores_witness:
  "(0::int) \<le> sint (5000 :: milliseconds)
   \<and> lastDelay (modifyWeightedFaceDelay \<lparr>face = Face 10, lastDelay = 0, weight = 1\<rparr> 5000)
       = clamp_delay 5000
   \<and> find_ById [\<lparr>face = Face 10, lastDelay = 0, weight = 1\<rparr>,
                 \<lparr>face = Face 20, lastDelay = 0, weight = 1\<rparr>] (getId (Face 20)) = Some 1
   \<and> weightedFaces (updateFaceDelay (Face 20) 5000
        \<lparr>weightedFaces = [\<lparr>face = Face 10, lastDelay = 0, weight = 1\<rparr>,
                          \<lparr>face = Face 20, lastDelay = 0, weight = 1\<rparr>]\<rparr>) ! 1
       = \<lparr>face = Face 20, lastDelay = 5000, weight = 9007199254740987 / 9007199254740992\<rparr>"
proof -
  let ?info = "\<lparr>weightedFaces = [\<lparr>face = Face 10, lastDelay = 0, weight = 1\<rparr>,
                                  \<lparr>face = Face 20, lastDelay = 0, weight = 1\<rparr>]\<rparr>"
  have d: "(0::int) \<le> sint (5000 :: milliseconds)" by simp
  have j: "find_ById (weightedFaces ?info) (getId (Face 20)) = Some 1"
    by (simp add: WeightedFace_getId_def)
  have m: "modifyWeightedFaceDelay \<lparr>face = Face 20, lastDelay = 0, weight = 1\<rparr> 5000
             = \<lparr>face = Face 20, lastDelay = 5000, weight = 9007199254740987 / 9007199254740992\<rparr>"
    by (simp add: modifyWeightedFaceDelay_def weight_eval)
  from modifyWeightedFaceDelay_stores
         [of "\<lparr>face = Face 10, lastDelay = 0, weight = 1\<rparr>" 5000 ?info "Face 20"] d j
  have "lastDelay (modifyWeightedFaceDelay \<lparr>face = Face 10, lastDelay = 0, weight = 1\<rparr> 5000)
          = clamp_delay 5000"
    and "weightedFaces (updateFaceDelay (Face 20) 5000 ?info) ! 1
          = modifyWeightedFaceDelay (weightedFaces ?info ! 1) 5000"
    by blast+
  with d j m show ?thesis by simp
qed

section \<open>Properties of demotion\<close>

lemma find_ById_ids:
  "map WeightedFace_getId ws = map WeightedFace_getId vs \<Longrightarrow> find_ById ws k = find_ById vs k"
proof (induction ws arbitrary: vs)
  case Nil
  then show ?case by simp
next
  case (Cons w ws)
  then obtain v vs' where "vs = v # vs'" by (cases vs) auto
  with Cons show ?case by auto
qed

lemma demoted_modify: "demoted (modifyWeightedFaceDelay w milliseconds_max)"
  by (simp add: demoted_def modifyWeightedFaceDelay_def calculateWeight_def int64_to_double_0)

lemma updateFaceDelay_max_entry:
  assumes "find_ById (weightedFaces info) k = Some j"
    and "k = getId f \<or> demoted (weightedFaces info ! j)"
  shows "demoted (weightedFaces (updateFaceDelay f milliseconds_max info) ! j)"
proof (cases "find_ById (weightedFaces info) (getId f)")
  case None
  with assms show ?thesis by (auto simp add: updateFaceDelay_def)
next
  case (Some i)
  from find_ById_Some [OF Some] have i: "i < length (weightedFaces info)"
    and idi: "WeightedFace_getId (weightedFaces info ! i) = getId f" by simp_all
  from find_ById_Some [OF assms(1)] have idj: "WeightedFace_getId (weightedFaces info ! j) = k"
    by simp
  show ?thesis
  proof (cases "i = j")
    case True
    with i show ?thesis by (simp add: updateFaceDelay_def Let_def Some demoted_modify)
  next
    case False
    with idi idj assms(1) Some have "k \<noteq> getId f" by auto
    with assms(2) False show ?thesis by (simp add: updateFaceDelay_def Let_def Some)
  qed
qed

lemma foldl_updateFaceDelay_ids:
  "map WeightedFace_getId
     (weightedFaces (foldl (\<lambda>info entry. updateFaceDelay entry d info) info outs))
   = map WeightedFace_getId (weightedFaces info)"
  by (induction outs arbitrary: info) (simp_all add: updateFaceDelay_ids)

lemma foldl_updateFaceDelay_max:
  assumes "find_ById (weightedFaces info) k = Some j"
    and "k \<in> getId ` set outs \<or> demoted (weightedFaces info ! j)"
  shows "demoted (weightedFaces
           (foldl (\<lambda>info entry. updateFaceDelay entry milliseconds_max info) info outs) ! j)"
  using assms
proof (induction outs arbitrary: info)
  case Nil
  then show ?case by simp
next
  case (Cons f outs)
  let ?info = "updateFaceDelay f milliseconds_max info"
  have find: "find_ById (weightedFaces ?info) k = Some j"
    using find_ById_ids [OF updateFaceDelay_ids, of f milliseconds_max info k] Cons.prems(1)
    by simp
  have "k \<in> getId ` set outs \<or> demoted (weightedFaces ?info ! j)"
  proof (cases "k \<in> getId ` set outs")
    case True
    then show ?thesis by simp
  next
    case False
    with Cons.prems(2) have "k = getId f \<or> demoted (weightedFaces info ! j)" by auto
    from updateFaceDelay_max_entry [OF Cons.prems(1) this] show ?thesis by simp
  qed
  from Cons.IH [OF find this] show ?case by simp
qed

text \<open>
  After \<open>demoteFace\<close> the entry at every prefix of the PIT entry's name has gone through
  the body of the loop once, and every other entry is as it was.
\<close>

lemma demoteFace_loop_lookup:
  "demoteFace_loop pitEntry (nearest ms n) ms m =
     (if prefix m n then map_option (demoteEntry pitEntry) (ms m) else ms m)"
proof (induction n arbitrary: ms rule: rev_induct)
  case Nil
  show ?case
  proof (cases "ms []")
    case None
    then have "nearest ms [] = None" by (subst nearest.simps) simp
    with None show ?thesis by (simp add: demoteFace_loop.simps)
  next
    case (Some e)
    then have "nearest ms [] = Some []" by (subst nearest.simps) simp
    with Some show ?thesis
      by (simp add: demoteFace_loop.simps accessor_getParent_def Let_def)
  qed
next
  case (snoc x xs)
  show ?case
  proof (cases "ms (xs @ [x])")
    case None
    then have "nearest ms (xs @ [x]) = nearest ms xs" by (subst nearest.simps) simp
    with snoc.IH [of ms] None show ?thesis by auto
  next
    case (Some e)
    let ?ms = "ms(xs @ [x] \<mapsto> demoteEntry pitEntry e)"
    from Some have "nearest ms (xs @ [x]) = Some (xs @ [x])" by (subst nearest.simps) simp
    moreover from Some
    have "demoteFace_loop pitEntry (Some (xs @ [x])) ms = demoteFace_loop pitEntry (nearest ?ms xs) ?ms"
      by (simp add: demoteFace_loop.simps accessor_getParent_def Let_def)
    moreover have "demoteFace_loop pitEntry (nearest ?ms xs) ?ms m =
        (if prefix m xs then map_option (demoteEntry pitEntry) (?ms m) else ?ms m)"
      by (rule snoc.IH)
    moreover have "\<not> prefix (xs @ [x]) xs" by (auto simp add: prefix_def)
    ultimately show ?thesis using Some by auto
  qed
qed

lemma demoteFace_lookup:
  "demoteFace pitEntry ms m =
     (if prefix m (getName pitEntry) then map_option (demoteEntry pitEntry) (ms m) else ms m)"
  by (simp add: demoteFace_def accessor_get_def demoteFace_loop_lookup)

lemma demoteEntry_consistent:
  assumes "\<forall>i. getStrategyInfo e = Some i \<longrightarrow> list_all weight_consistent (weightedFaces i)"
    and "getStrategyInfo (demoteEntry pitEntry e) = Some i'"
  shows "list_all weight_consistent (weightedFaces i')"
proof (cases "getStrategyInfo e")
  case None
  with assms(2) show ?thesis by (simp add: demoteEntry_def)
next
  case (Some i)
  have fold: "list_all weight_consistent (weightedFaces i0)
     \<Longrightarrow> list_all weight_consistent
           (weightedFaces (foldl (\<lambda>info entry. updateFaceDelay entry d info) i0 outs))"
    for i0 d outs
    by (induction outs arbitrary: i0) (simp_all add: weight_consistent_updateFaceDelay)
  from assms(1) Some have "list_all weight_consistent (weightedFaces i)" by simp
  from fold [OF this] assms(2) Some show ?thesis
    by (auto simp add: demoteEntry_def extendLifetime_def)
qed

text \<open>
  C8. \<open>demoteFace\<close> walks up from the PIT entry's name. Take any ancestor, that is, any
  prefix of the PIT entry's name (the name itself included), whose entry carries a
  \<open>MyMeasurementInfo\<close>. After \<open>demoteFace\<close> that entry has been extended by 16 seconds once
  more, its info is the result of \<open>updateFaceDelay\<close> with \<open>milliseconds::max()\<close> for every
  out-record face in turn, the table has the same face ids, and every out-record face that the
  table holds has delay \<open>milliseconds::max()\<close> and weight 0.
\<close>

theorem demoteFace_demotes:
  assumes "prefix n (getName pitEntry)"
    and "measurements n = Some entry"
    and "getStrategyInfo entry = Some info"
  shows "\<exists>entry' info'.
           demoteFace pitEntry measurements n = Some entry'
         \<and> extendedLifetime entry' = extendedLifetime entry @ [16]
         \<and> getStrategyInfo entry' = Some info'
         \<and> info' = foldl (\<lambda>info entry. updateFaceDelay entry milliseconds_max info) info
                      (getOutRecords pitEntry)
         \<and> map WeightedFace_getId (weightedFaces info') = map WeightedFace_getId (weightedFaces info)
         \<and> (\<forall>f \<in> set (getOutRecords pitEntry). \<forall>j.
               find_ById (weightedFaces info) (getId f) = Some j
               \<longrightarrow> find_ById (weightedFaces info') (getId f) = Some j
                   \<and> lastDelay (weightedFaces info' ! j) = milliseconds_max
                   \<and> weight (weightedFaces info' ! j) = 0)"
proof -
  let ?info = "foldl (\<lambda>info entry. updateFaceDelay entry milliseconds_max info) info
                 (getOutRecords pitEntry)"
  from assms(1,2)
  have "demoteFace pitEntry measurements n = Some (demoteEntry pitEntry entry)"
    by (simp add: demoteFace_lookup)
  moreover have "extendedLifetime (demoteEntry pitEntry entry) = extendedLifetime entry @ [16]"
    and "getStrategyInfo (demoteEntry pitEntry entry) = Some ?info"
    by (simp_all add: demoteEntry_def extendLifetime_def assms(3))
  moreover have ids: "map WeightedFace_getId (weightedFaces ?info)
                        = map WeightedFace_getId (weightedFaces info)"
    by (rule foldl_updateFaceDelay_ids)
  moreover have "\<forall>f \<in> set (getOutRecords pitEntry). \<forall>j.
               find_ById (weightedFaces info) (getId f) = Some j
               \<longrightarrow> find_ById (weightedFaces ?info) (getId f) = Some j
                   \<and> lastDelay (weightedFaces ?info ! j) = milliseconds_max
                   \<and> weight (weightedFaces ?info ! j) = 0"
  proof (intro ballI allI impI)
    fix f j
    assume f: "f \<in> set (getOutRecords pitEntry)"
      and j: "find_ById (weightedFaces info) (getId f) = Some j"
    from f have "getId f \<in> getId ` set (getOutRecords pitEntry)" by simp
    then have "demoted (weightedFaces ?info ! j)"
      using foldl_updateFaceDelay_max [OF j] by blast
    moreover from j have "find_ById (weightedFaces ?info) (getId f) = Some j"
      using find_ById_ids [OF ids, of "getId f"] by simp
    ultimately show "find_ById (weightedFaces ?info) (getId f) = Some j
                   \<and> lastDelay (weightedFaces ?info ! j) = milliseconds_max
                   \<and> weight (weightedFaces ?info ! j) = 0"
      by (simp add: demoted_def)
  qed
  ultimately show ?thesis by blast
qed

text \<open>
  An instance: the measurements table has no entry at the PIT entry's name \<open>/a/x/y\<close> and
  none at \<open>/a/x\<close>; the walk skips both and reaches the entry at \<open>/a\<close>.
\<close>

theorem demoteFace_demotes_witness:
  "prefix [''a''] (getName \<lparr>getName = [''a'', ''x'', ''y''], getOutRecords = [Face 10],
                             violatesScope = (\<lambda>f. False)\<rparr>)
   \<and> (\<exists>entry' info'.
         demoteFace \<lparr>getName = [''a'', ''x'', ''y''], getOutRecords = [Face 10],
                     violatesScope = (\<lambda>f. False)\<rparr>
           (Map.empty
              ([''a''] \<mapsto> \<lparr>getStrategyInfo = Some \<lparr>weightedFaces =
                                [\<lparr>face = Face 10, lastDelay = 0, weight = 1\<rparr>,
                                 \<lparr>face = Face 20, lastDelay = 0, weight = 1\<rparr>]\<rparr>,
                             extendedLifetime = []\<rparr>))
           [''a''] = Some entry'
       \<and> extendedLifetime entry' = [16]
       \<and> getStrategyInfo entry' = Some info'
       \<and> map WeightedFace_getId (weightedFaces info') = [10, 20]
       \<and> lastDelay (weightedFaces info' ! 0) = milliseconds_max
       \<and> weight (weightedFaces info' ! 0) = 0)"
proof -
  let ?pit = "\<lparr>getName = [''a'', ''x'', ''y''], getOutRecords = [Face 10],
               violatesScope = (\<lambda>f. False)\<rparr>"
  let ?info = "\<lparr>weightedFaces = [\<lparr>face = Face 10, lastDelay = 0, weight = 1\<rparr>,
                                  \<lparr>face = Face 20, lastDelay = 0, weight = 1\<rparr>]\<rparr>"
  let ?entry = "\<lparr>getStrategyInfo = Some ?info, extendedLifetime = []\<rparr>"
  let ?ms = "Map.empty([''a''] \<mapsto> ?entry)"
  have h1: "prefix [''a''] (getName ?pit)" by simp
  have h2: "?ms [''a''] = Some ?entry" by simp
  have h3: "getStrategyInfo ?entry = Some ?info" by simp
  have f: "Face 10 \<in> set (getOutRecords ?pit)" by simp
  have j: "find_ById (weightedFaces ?info) (getId (Face 10)) = Some 0"
    by (simp add: WeightedFace_getId_def)
  from demoteFace_demotes
         [where n = "[''a'']" and pitEntry = ?pit and measurements = ?ms and entry = ?entry
            and info = ?info, OF h1 h2 h3]
  obtain entry' info' where
    r: "demoteFace ?pit ?ms [''a''] = Some entry'"
      "extendedLifetime entry' = extendedLifetime ?entry @ [16]"
      "getStrategyInfo entry' = Some info'"
      "map WeightedFace_getId (weightedFaces info') = map WeightedFace_getId (weightedFaces ?info)"
      "\<forall>f \<in> set (getOutRecords ?pit). \<forall>j.
               find_ById (weightedFaces ?info) (getId f) = Some j
               \<longrightarrow> find_ById (weightedFaces info') (getId f) = Some j
                   \<and> lastDelay (weightedFaces info' ! j) = milliseconds_max
                   \<and> weight (weightedFaces info' ! j) = 0"
    by blast
  from r(5) f j have "lastDelay (weightedFaces info' ! 0) = milliseconds_max
                   \<and> weight (weightedFaces info' ! 0) = 0" by blast
  with r(1-4) h1 show ?thesis by (simp add: WeightedFace_getId_def)
qed

section \<open>The invariant of the weight\<close>

text \<open>
  The invariant as the specification words it does not survive \<open>updateFaceDelay\<close>. It holds
  of a fresh table with face 10. After a delay of -1 ms is recorded for face 10 the stored
  delay is negative; after a delay of 50 ms is recorded the weight is the double \<open>1.0\<close>
  (the count \<open>2^63 - 51\<close> rounds to \<open>2^63\<close> when it is converted to double), not the quotient
  \<open>(MAX - 50) / MAX\<close>.
\<close>

theorem weight_invariant_spec_counterexample:
  "list_all weight_invariant_spec [WeightedFace_new (Face 10) 0]
   \<and> \<not> list_all weight_invariant_spec
         (weightedFaces (updateFaceDelay (Face 10) (- 1)
            \<lparr>weightedFaces = [WeightedFace_new (Face 10) 0]\<rparr>))
   \<and> \<not> list_all weight_invariant_spec
         (weightedFaces (updateFaceDelay (Face 10) 50
            \<lparr>weightedFaces = [WeightedFace_new (Face 10) 0]\<rparr>))"
  by (simp add: weight_invariant_spec_def updateFaceDelay_def WeightedFace_new_def
      WeightedFace_getId_def modifyWeightedFaceDelay_def weight_eval)

text \<open>
  C6, as the code has it. The weight of every weighted face is the double that
  \<open>calculateWeight\<close> computes for \<open>(MAX - lastDelay) / MAX\<close> from the stored delay. This holds
  of every constructed face and is preserved by \<open>updateFaceDelay\<close>, by
  \<open>updateStoredNextHops\<close> and by \<open>demoteFace\<close> on every table of the measurements. A face
  for which it holds has a delay of at most \<open>MAX\<close>; when the delay is not negative the weight
  lies between 0 and 1 and within \<open>2^-53\<close> of the exact quotient; delay \<open>MAX\<close> gives weight
  0 and delay 0 gives weight 1. The delay itself may be negative.
\<close>

theorem weight_invariant_preserved:
  "weight_consistent (WeightedFace_new f d)
   \<and> (list_all weight_consistent (weightedFaces info)
        \<longrightarrow> list_all weight_consistent (weightedFaces (updateFaceDelay f d info)))
   \<and> (list_all weight_consistent (weightedFaces info)
        \<longrightarrow> list_all weight_consistent (weightedFaces (updateStoredNextHops nexthops info)))
   \<and> ((\<forall>n e i. measurements n = Some e \<and> getStrategyInfo e = Some i
                 \<longrightarrow> list_all weight_consistent (weightedFaces i))
        \<longrightarrow> (\<forall>n e i. demoteFace pitEntry measurements n = Some e \<and> getStrategyInfo e = Some i
                 \<longrightarrow> list_all weight_consistent (weightedFaces i)))
   \<and> (weight_consistent w
        \<longrightarrow> weight w = int64_to_double (milliseconds_max - lastDelay w)
                          / int64_to_double milliseconds_max
            \<and> sint (lastDelay w) \<le> sint milliseconds_max
            \<and> (0 \<le> sint (lastDelay w)
                 \<longrightarrow> 0 \<le> weight w \<and> weight w \<le> 1
                     \<and> \<bar>weight w - (of_int (sint milliseconds_max) - of_int (sint (lastDelay w)))
                                      / of_int (sint milliseconds_max)\<bar> \<le> 1 / 2 ^ 53)
            \<and> (lastDelay w = milliseconds_max \<longrightarrow> weight w = 0)
            \<and> (lastDelay w = 0 \<longrightarrow> weight w = 1))"
proof (intro conjI impI allI)
  show "weight_consistent (WeightedFace_new f d)" by (rule weight_consistent_new)
next
  assume "list_all weight_consistent (weightedFaces info)"
  then show "list_all weight_consistent (weightedFaces (updateFaceDelay f d info))"
    by (rule weight_consistent_updateFaceDelay)
next
  assume "list_all weight_consistent (weightedFaces info)"
  then show "list_all weight_consistent (weightedFaces (updateStoredNextHops nexthops info))"
    by (rule weight_consistent_updateStoredNextHops)
next
  fix n e i
  assume inv: "\<forall>n e i. measurements n = Some e \<and> getStrategyInfo e = Some i
                 \<longrightarrow> list_all weight_consistent (weightedFaces i)"
    and after: "demoteFace pitEntry measurements n = Some e \<and> getStrategyInfo e = Some i"
  show "list_all weight_consistent (weightedFaces i)"
  proof (cases "prefix n (getName pitEntry)")
    case False
    with after have "measurements n = Some e"
      by (simp add: demoteFace_lookup)
    with inv after show ?thesis by blast
  next
    case True
    with after obtain e0 where e0: "measurements n = Some e0" and e: "e = demoteEntry pitEntry e0"
      by (auto simp add: demoteFace_lookup)
    from inv e0 have "\<forall>i. getStrategyInfo e0 = Some i \<longrightarrow> list_all weight_consistent (weightedFaces i)"
      by blast
    moreover from after e have "getStrategyInfo (demoteEntry pitEntry e0) = Some i" by simp
    ultimately show ?thesis by (rule demoteEntry_consistent)
  qed
next
  assume w: "weight_consistent w"
  then have cw: "weight (calculateWeight w) = weight w" by (simp add: weight_consistent_def)
  then show "weight w = int64_to_double (milliseconds_max - lastDelay w)
                          / int64_to_double milliseconds_max"
    by (simp add: calculateWeight_def)
  from weight_consistent_facts(1) [OF w] show "sint (lastDelay w) \<le> sint milliseconds_max" .
  { assume d: "0 \<le> sint (lastDelay w)"
    from weight_consistent_facts(2) [OF w this] show "0 \<le> weight w" and "weight w \<le> 1"
      by simp_all
    from calculateWeight_close [OF d]
    show "\<bar>weight w - (of_int (sint milliseconds_max) - of_int (sint (lastDelay w)))
                     / of_int (sint milliseconds_max)\<bar> \<le> 1 / 2 ^ 53"
      by (simp only: cw) }
  { assume "lastDelay w = milliseconds_max"
    from weight_consistent_facts(3) [OF w this] show "weight w = 0" . }
  { assume "lastDelay w = 0"
    from weight_consistent_facts(4) [OF w this] show "weight w = 1" . }
qed

theorem weight_invariant_preserved_witness:
  "list_all weight_consistent
     [\<lparr>face = Face 10, lastDelay = 5000, weight = 9007199254740987 / 9007199254740992\<rparr>,
      \<lparr>face = Face 20, lastDelay = 0, weight = 1\<rparr>]
   \<and> list_all weight_consistent (weightedFaces (updateFaceDelay (Face 20) (- 1)
        \<lparr>weightedFaces =
           [\<lparr>face = Face 10, lastDelay = 5000, weight = 9007199254740987 / 9007199254740992\<rparr>,
            \<lparr>face = Face 20, lastDelay = 0, weight = 1\<rparr>]\<rparr>))
   \<and> list_all weight_consistent (weightedFaces (updateStoredNextHops
        [NextHop (Face 10) 0, NextHop (Face 30) 0]
        \<lparr>weightedFaces =
           [\<lparr>face = Face 10, lastDelay = 5000, weight = 9007199254740987 / 9007199254740992\<rparr>,
            \<lparr>face = Face 20, lastDelay = 0, weight = 1\<rparr>]\<rparr>))
   \<and> (\<exists>e i. demoteFace \<lparr>getName = [''a''], getOutRecords = [Face 10],
                           violatesScope = (\<lambda>f. False)\<rparr>
                (Map.empty([''a''] \<mapsto> \<lparr>getStrategyInfo = Some \<lparr>weightedFaces =
                   [\<lparr>face = Face 10, lastDelay = 5000,
                      weight = 9007199254740987 / 9007199254740992\<rparr>,
                    \<lparr>face = Face 20, lastDelay = 0, weight = 1\<rparr>]\<rparr>,
                   extendedLifetime = []\<rparr>)) [''a''] = Some e
            \<and> getStrategyInfo e = Some i \<and> list_all weight_consistent (weightedFaces i))
   \<and> (0::int) \<le> sint (lastDelay \<lparr>face = Face 10, lastDelay = 5000,
                                    weight = 9007199254740987 / 9007199254740992\<rparr>)
   \<and> (0::rat) \<le> 9007199254740987 / 9007199254740992
   \<and> (9007199254740987 / 9007199254740992 :: rat) \<le> 1
   \<and> \<bar>9007199254740987 / 9007199254740992
        - (of_int (sint milliseconds_max) - of_int (sint (5000 :: milliseconds)))
            / of_int (sint milliseconds_max)\<bar> \<le> (1::rat) / 2 ^ 53
   \<and> weight_consistent \<lparr>face = Face 10, lastDelay = milliseconds_max, weight = 0\<rparr>
   \<and> weight \<lparr>face = Face 10, lastDelay = milliseconds_max, weight = 0\<rparr> = 0
   \<and> weight_consistent \<lparr>face = Face 20, lastDelay = 0, weight = 1\<rparr>
   \<and> weight \<lparr>face = Face 20, lastDelay = 0, weight = 1\<rparr> = 1"
proof -
  let ?w10 = "\<lparr>face = Face 10, lastDelay = 5000, weight = 9007199254740987 / 9007199254740992\<rparr>"
  let ?w20 = "\<lparr>face = Face 20, lastDelay = 0, weight = 1\<rparr>"
  let ?wmax = "\<lparr>face = Face 10, lastDelay = milliseconds_max, weight = 0\<rparr>"
  let ?info = "\<lparr>weightedFaces = [?w10, ?w20]\<rparr>"
  let ?pit = "\<lparr>getName = [''a''], getOutRecords = [Face 10], violatesScope = (\<lambda>f. False)\<rparr>"
  let ?ms = "Map.empty([''a''] \<mapsto> \<lparr>getStrategyInfo = Some ?info, extendedLifetime = []\<rparr>)"
  let ?H = "[NextHop (Face 10) 0, NextHop (Face 30) 0]"
  have c10: "weight_consistent ?w10" and c20: "weight_consistent ?w20"
    by (simp_all add: weight_consistent_def weight_eval)
  have cmax: "weight_consistent ?wmax"
    by (simp add: weight_consistent_def weight_eval)
  from c10 c20 have t: "list_all weight_consistent (weightedFaces ?info)" by simp
  have m: "\<forall>n e i. ?ms n = Some e \<and> getStrategyInfo e = Some i
             \<longrightarrow> list_all weight_consistent (weightedFaces i)"
    using t by (auto split: if_splits)
  have d: "demoteFace ?pit ?ms [''a'']
             = Some (demoteEntry ?pit \<lparr>getStrategyInfo = Some ?info, extendedLifetime = []\<rparr>)"
    by (simp add: demoteFace_lookup)
  have di: "getStrategyInfo (demoteEntry ?pit \<lparr>getStrategyInfo = Some ?info, extendedLifetime = []\<rparr>)
             = Some (updateFaceDelay (Face 10) milliseconds_max ?info)"
    by (simp add: demoteEntry_def extendLifetime_def)
  note inst = weight_invariant_preserved
    [where f = "Face 20" and d = "- 1" and info = ?info and nexthops = ?H
       and measurements = ?ms and pitEntry = ?pit and w = ?w10]
  from inst t have "list_all weight_consistent (weightedFaces (updateFaceDelay (Face 20) (- 1) ?info))"
    by blast
  moreover from inst t have "list_all weight_consistent (weightedFaces (updateStoredNextHops ?H ?info))"
    by blast
  moreover from inst m d di
  have "list_all weight_consistent
          (weightedFaces (updateFaceDelay (Face 10) milliseconds_max ?info))"
    by blast
  with d di have "\<exists>e i. demoteFace ?pit ?ms [''a''] = Some e
            \<and> getStrategyInfo e = Some i \<and> list_all weight_consistent (weightedFaces i)"
    by blast
  moreover from inst c10 have "0 \<le> weight ?w10 \<and> weight ?w10 \<le> 1
      \<and> \<bar>weight ?w10 - (of_int (sint milliseconds_max) - of_int (sint (lastDelay ?w10)))
                          / of_int (sint milliseconds_max)\<bar> \<le> 1 / 2 ^ 53"
    by simp
  moreover from weight_invariant_preserved
    [where f = "Face 20" and d = "- 1" and info = ?info and nexthops = ?H
       and measurements = ?ms and pitEntry = ?pit and w = ?wmax] cmax
  have "weight ?wmax = 0" by simp
  moreover from weight_invariant_preserved
    [where f = "Face 20" and d = "- 1" and info = ?info and nexthops = ?H
       and measurements = ?ms and pitEntry = ?pit and w = ?w20] c20
  have "weight ?w20 = 1" by simp
  ultimately show ?thesis using t cmax c20 by simp
qed

section \<open>Properties of the selector\<close>

text \<open>
  Whatever the two loops return is an eligible face of the table, and on a table that is not
  empty no access is out of range, so that the loops run to their end.
\<close>

lemma firstLoop_body_Return:
  "firstLoop_body pitEntry inFace facesById faceIds selection i firstMatchIndex faceEntry
     = Inr (Return f)
   \<Longrightarrow> f \<in> face ` set facesById \<and> isEligibleFace pitEntry inFace f"
  by (auto simp add: firstLoop_body_def deref_def split: sum.splits if_splits)

lemma firstLoop_result:
  "firstLoop pitEntry inFace facesById faceIds selection bound i firstMatchIndex faceEntry = Inr r
   \<Longrightarrow> faceEntry \<le> length facesById
   \<Longrightarrow> (case r of
          Selected f \<Rightarrow> f \<in> face ` set facesById \<and> isEligibleFace pitEntry inFace f
        | Exhausted firstMatchIndex' faceEntry' \<Rightarrow> faceEntry' \<le> length facesById)"
proof (induction pitEntry inFace facesById faceIds selection bound i firstMatchIndex faceEntry
       rule: firstLoop.induct)
  case (1 pitEntry inFace facesById faceIds selection bound i firstMatchIndex faceEntry)
  show ?case
  proof (cases "i < bound")
    case False
    with "1.prems" show ?thesis by (subst (asm) firstLoop.simps) auto
  next
    case True
    show ?thesis
    proof (cases "firstLoop_body pitEntry inFace facesById faceIds selection i firstMatchIndex
                    faceEntry")
      case (Inl e)
      with True "1.prems"(1) show ?thesis by (subst (asm) firstLoop.simps) simp
    next
      case (Inr b)
      show ?thesis
      proof (cases b)
        case (Return f)
        with True Inr "1.prems"(1) have "r = Selected f"
          by (subst (asm) firstLoop.simps) simp
        with firstLoop_body_Return Inr Return show ?thesis by simp
      next
        case (Continue fm)
        show ?thesis
        proof (cases "increment facesById faceEntry")
          case (Inl e)
          with True Inr Continue "1.prems"(1) show ?thesis
            by (subst (asm) firstLoop.simps) simp
        next
          case inc: (Inr faceEntry')
          with True Inr Continue "1.prems"(1)
          have rec: "firstLoop pitEntry inFace facesById faceIds selection bound (i + 1) fm
                  faceEntry' = Inr r"
            by (subst (asm) firstLoop.simps) simp
          from inc have "faceEntry' \<le> length facesById"
            by (auto simp add: increment_def split: if_splits)
          with "1.IH" [OF True Inr Continue inc rec] show ?thesis .
        qed
      qed
    qed
  qed
qed

lemma wrapLoop_Some:
  "wrapLoop pitEntry inFace facesById limit i faceEntry = Inr (Some f)
   \<Longrightarrow> f \<in> face ` set facesById \<and> isEligibleFace pitEntry inFace f"
proof (induction pitEntry inFace facesById limit i faceEntry rule: wrapLoop.induct)
  case (1 pitEntry inFace facesById limit i faceEntry)
  show ?case
  proof (cases "i < limit")
    case False
    with "1.prems" show ?thesis by (subst (asm) wrapLoop.simps) simp
  next
    case True
    show ?thesis
    proof (cases "deref facesById faceEntry")
      case (Inl e)
      with True "1.prems" show ?thesis by (subst (asm) wrapLoop.simps) simp
    next
      case (Inr weightedFace)
      then have mem: "face weightedFace \<in> face ` set facesById"
        by (auto simp add: deref_def split: if_splits)
      show ?thesis
      proof (cases "isEligibleFace pitEntry inFace (face weightedFace)")
        case e: True
        with True Inr "1.prems" have "f = face weightedFace"
          by (subst (asm) wrapLoop.simps) simp
        with e mem show ?thesis by simp
      next
        case e: False
        show ?thesis
        proof (cases "increment facesById faceEntry")
          case (Inl err)
          with True Inr e "1.prems" show ?thesis by (subst (asm) wrapLoop.simps) simp
        next
          case inc: (Inr faceEntry')
          with True Inr e "1.prems"
          have "wrapLoop pitEntry inFace facesById limit (i + 1) faceEntry' = Inr (Some f)"
            by (subst (asm) wrapLoop.simps) simp
          with "1.IH" [OF True Inr e inc] show ?thesis .
        qed
      qed
    qed
  qed
qed

lemma firstLoop_body_total:
  assumes "faceEntry < length facesById" and "i < length facesById"
    and "length faceIds = length facesById + 1"
  shows "\<exists>b. firstLoop_body pitEntry inFace facesById faceIds selection i firstMatchIndex
              faceEntry = Inr b"
  using assms
  by (simp add: firstLoop_body_def in_interval_def faceIds_at_def deref_def)

lemma firstLoop_total:
  "faceEntry = i \<Longrightarrow> bound < length facesById \<Longrightarrow> length faceIds = length facesById + 1
   \<Longrightarrow> \<exists>r. firstLoop pitEntry inFace facesById faceIds selection bound i firstMatchIndex
              faceEntry = Inr r"
proof (induction pitEntry inFace facesById faceIds selection bound i firstMatchIndex faceEntry
       rule: firstLoop.induct)
  case (1 pitEntry inFace facesById faceIds selection bound i firstMatchIndex faceEntry)
  show ?case
  proof (cases "i < bound")
    case False
    then show ?thesis by (subst firstLoop.simps) simp
  next
    case True
    with "1.prems" have i: "faceEntry < length facesById" "i < length facesById" by simp_all
    from firstLoop_body_total [OF i "1.prems"(3)] obtain b where
      b: "firstLoop_body pitEntry inFace facesById faceIds selection i firstMatchIndex faceEntry
            = Inr b" by blast
    from i "1.prems"(1) have inc: "increment facesById faceEntry = Inr (i + 1)"
      by (simp add: increment_def)
    show ?thesis
    proof (cases b)
      case (Return f)
      with True b show ?thesis by (subst firstLoop.simps) simp
    next
      case (Continue fm)
      from "1.IH" [OF True b Continue inc refl "1.prems"(2,3)] True b Continue inc
      show ?thesis by (subst firstLoop.simps) simp
    qed
  qed
qed

lemma wrapLoop_total:
  "faceEntry = i \<Longrightarrow> limit \<le> length facesById
   \<Longrightarrow> \<exists>r. wrapLoop pitEntry inFace facesById limit i faceEntry = Inr r"
proof (induction pitEntry inFace facesById limit i faceEntry rule: wrapLoop.induct)
  case (1 pitEntry inFace facesById limit i faceEntry)
  show ?case
  proof (cases "i < limit")
    case False
    then show ?thesis by (subst wrapLoop.simps) simp
  next
    case True
    with "1.prems" have d: "deref facesById faceEntry = Inr (facesById ! i)"
      and inc: "increment facesById faceEntry = Inr (i + 1)"
      by (simp_all add: deref_def increment_def)
    show ?thesis
    proof (cases "isEligibleFace pitEntry inFace (face (facesById ! i))")
      case e: True
      with True d show ?thesis by (subst wrapLoop.simps) simp
    next
      case e: False
      from "1.IH" [OF True d e inc refl "1.prems"(2)] True d e inc
      show ?thesis by (subst wrapLoop.simps) simp
    qed
  qed
qed

lemma size_t_le: "size_t n \<le> n"
  by (simp add: size_t_def)

lemma size_t_minus_1:
  assumes "0 < n"
  shows "size_t (size_t n + 2 ^ 64 - 1) < n"
proof (cases "n mod 2 ^ 64 = 0")
  case True
  then have "(2::nat) ^ 64 dvd n" by (simp add: mod_eq_0_iff_dvd)
  from this assms have "(2::nat) ^ 64 \<le> n" by (rule dvd_imp_le)
  with True show ?thesis by (simp add: size_t_def)
next
  case False
  define m where "m = n mod 2 ^ 64"
  with False have m: "0 < m" "m < 2 ^ 64" "m \<le> n" by simp_all
  from m(1) have "m + 2 ^ 64 - 1 = (m - 1) + 2 ^ 64" by simp
  then have "(m + 2 ^ 64 - 1) mod 2 ^ 64 = (m - 1) mod 2 ^ 64" by (simp only: mod_add_self2)
  also from m(2) have "\<dots> = m - 1" by simp
  finally show ?thesis using m by (simp add: size_t_def m_def)
qed

lemma scanFaces_eligible:
  assumes "scanFaces INVALID_FACEID pitEntry inFace facesById faceIds selection = Inr (Some f)"
  shows "f \<in> face ` set facesById \<and> isEligibleFace pitEntry inFace f"
proof -
  let ?bound = "size_t (size_t (length facesById) + 2 ^ 64 - 1)"
  let ?first = "firstLoop pitEntry inFace facesById faceIds selection ?bound 0
                  (unat INVALID_FACEID) 0"
  show ?thesis
  proof (cases ?first)
    case (Inl e)
    with assms show ?thesis by (simp add: scanFaces_def Let_def)
  next
    case (Inr r)
    from firstLoop_result [OF Inr] have res:
      "case r of Selected f \<Rightarrow> f \<in> face ` set facesById \<and> isEligibleFace pitEntry inFace f
       | Exhausted firstMatchIndex' faceEntry' \<Rightarrow> faceEntry' \<le> length facesById"
      by simp
    show ?thesis
    proof (cases r)
      case (Selected g)
      with Inr assms have "f = g" by (simp add: scanFaces_def Let_def)
      with res Selected show ?thesis by simp
    next
      case (Exhausted fm it)
      with res have it: "it \<le> length facesById" by simp
      show ?thesis
      proof (cases "it \<noteq> length facesById
                    \<and> isEligibleFace pitEntry inFace (face (facesById ! it))")
        case True
        with Inr Exhausted assms have "f = face (facesById ! it)"
          by (simp add: scanFaces_def Let_def)
        moreover from True it have "it < length facesById" by simp
        ultimately show ?thesis using True by simp
      next
        case False
        with Inr Exhausted assms
        have "wrapLoop pitEntry inFace facesById (min fm (size_t (length facesById))) 0 0
                = Inr (Some f)"
          by (simp add: scanFaces_def Let_def)
        then show ?thesis by (rule wrapLoop_Some)
      qed
    qed
  qed
qed

lemma scanFaces_total:
  assumes "facesById \<noteq> []" and "length faceIds = length facesById + 1"
  shows "\<exists>r. scanFaces INVALID_FACEID pitEntry inFace facesById faceIds selection = Inr r"
proof -
  let ?bound = "size_t (size_t (length facesById) + 2 ^ 64 - 1)"
  from assms(1) have "?bound < length facesById" by (intro size_t_minus_1) simp
  from firstLoop_total [OF refl this assms(2)] obtain r where
    r: "firstLoop pitEntry inFace facesById faceIds selection ?bound 0 (unat INVALID_FACEID) 0
          = Inr r" by blast
  show ?thesis
  proof (cases r)
    case (Selected g)
    with r show ?thesis by (simp add: scanFaces_def Let_def)
  next
    case (Exhausted fm it)
    have "min fm (size_t (length facesById)) \<le> length facesById"
      using size_t_le [of "length facesById"] by simp
    from wrapLoop_total [OF refl this] obtain w where
      "wrapLoop pitEntry inFace facesById (min fm (size_t (length facesById))) 0 0 = Inr w"
      by blast
    with r Exhausted show ?thesis by (simp add: scanFaces_def Let_def)
  qed
qed

lemma scanFaces_empty:
  "\<exists>e. scanFaces INVALID_FACEID pitEntry inFace [] [INVALID_FACEID] selection = Inl e"
  by (simp add: scanFaces_def size_t_def firstLoop.simps firstLoop_body_def in_interval_def
      faceIds_at_def increment_def Let_def)

text \<open>
  C10. \<open>selectOutgoingFace\<close> leaves the measurement info as it found it, whatever it
  selects: the weighted-face table after the call, its members and their delays and weights,
  is the table before the call. Only the random generator advances. No path of the function
  writes the table, the path that faults on the empty table included.
\<close>

theorem selectOutgoingFace_readonly:
  "fst (snd (selectOutgoingFace INVALID_FACEID sample inFace info pitEntry g)) = info
   \<and> weightedFaces (fst (snd (selectOutgoingFace INVALID_FACEID sample inFace info pitEntry g)))
       = weightedFaces info"
  by (simp add: selectOutgoingFace_def Let_def split: prod.split)

text \<open>
  C3. On the empty table \<open>selectOutgoingFace\<close> does not return none. \<open>facesById.size() - 1\<close>
  wraps to \<open>2^64 - 1\<close>, so the first loop is entered: when the sampled value is at least
  \<open>faceIds[0]\<close>, which is \<open>INVALID_FACEID\<close>, it reads \<open>faceIds[1]\<close> beyond the vector, and
  otherwise it increments the iterator that is already \<open>end()\<close>.
\<close>

theorem selectOutgoingFace_empty:
  "fst (selectOutgoingFace INVALID_FACEID sample inFace \<lparr>weightedFaces = []\<rparr> pitEntry g)
     = Inl (if INVALID_FACEID \<le> fst (sample [INVALID_FACEID] [] g)
            then VectorOutOfRange else IteratorPastEnd)"
  by (simp add: selectOutgoingFace_def scanFaces_def size_t_def firstLoop.simps firstLoop_body_def
      in_interval_def faceIds_at_def increment_def Let_def split: prod.split)

text \<open>
  C1. A face that \<open>selectOutgoingFace\<close> returns is a face of the table whose id differs from
  the ingress face's and that does not violate the scope of the PIT entry, on each of its
  three return paths. But the function does not return on every table: it returns, a face or
  none, exactly when the table is not empty, and on the empty table it runs into the undefined
  behaviour of C3.
\<close>

theorem selectOutgoingFace_outcome:
  "isl (fst (selectOutgoingFace INVALID_FACEID sample inFace info pitEntry g))
     = (weightedFaces info = [])
   \<and> (case fst (selectOutgoingFace INVALID_FACEID sample inFace info pitEntry g) of
        Inl e \<Rightarrow> True
      | Inr None \<Rightarrow> True
      | Inr (Some f) \<Rightarrow>
          f \<in> face ` set (weightedFaces info) \<and> getId f \<noteq> getId inFace
          \<and> \<not> violatesScope pitEntry f)"
proof -
  let ?ids = "map WeightedFace_getId (weightedFaces info) @ [INVALID_FACEID]"
  obtain selection g' where s: "sample ?ids (map weight (weightedFaces info)) g = (selection, g')"
    by (cases "sample ?ids (map weight (weightedFaces info)) g")
  let ?scan = "scanFaces INVALID_FACEID pitEntry inFace (weightedFaces info) ?ids selection"
  from s have out: "fst (selectOutgoingFace INVALID_FACEID sample inFace info pitEntry g) = ?scan"
    by (simp add: selectOutgoingFace_def Let_def)
  have "isl ?scan = (weightedFaces info = [])"
  proof (cases "weightedFaces info = []")
    case True
    with scanFaces_empty [of INVALID_FACEID pitEntry inFace selection] show ?thesis by auto
  next
    case False
    from scanFaces_total [OF False, of ?ids INVALID_FACEID pitEntry inFace selection] False
    show ?thesis by auto
  qed
  moreover have "case ?scan of Inl e \<Rightarrow> True | Inr None \<Rightarrow> True
      | Inr (Some f) \<Rightarrow> f \<in> face ` set (weightedFaces info) \<and> getId f \<noteq> getId inFace
          \<and> \<not> violatesScope pitEntry f"
    using scanFaces_eligible [of INVALID_FACEID pitEntry inFace "weightedFaces info" ?ids selection]
    by (auto simp add: isEligibleFace_def split: sum.splits option.splits)
  ultimately show ?thesis by (simp only: out) 
qed

text \<open>
  C2. After a sampled position whose face is not eligible, the code does not try the
  positions that follow it: the first loop tests eligibility only where the sampled value
  lies in the interval, and after the loop only the last position is tested. Table of faces
  1, 2, 3; the Interest arrives on face 1; face 3 violates scope; the sampled value is 1, which
  lands at position 0. Face 2, at position 1, is eligible and is what the specified scan
  returns; the code skips it, finds face 3 ineligible, wraps around with limit
  \<open>min(0, 3) = 0\<close>, and returns none.
\<close>

theorem selectOutgoingFace_skips_eligible:
  "in_interval [1, 2, 3, INVALID_FACEID] 1 0 = Inr True
   \<and> \<not> isEligibleFace \<lparr>getName = [], getOutRecords = [], violatesScope = (\<lambda>f. getId f = 3)\<rparr>
         (Face 1) (Face 1)
   \<and> isEligibleFace \<lparr>getName = [], getOutRecords = [], violatesScope = (\<lambda>f. getId f = 3)\<rparr>
         (Face 1) (Face 2)
   \<and> fst (selectOutgoingFace INVALID_FACEID (\<lambda>faceIds weights g. (1, g)) (Face 1)
        \<lparr>weightedFaces = [\<lparr>face = Face 1, lastDelay = 0, weight = 1\<rparr>,
                          \<lparr>face = Face 2, lastDelay = 0, weight = 1\<rparr>,
                          \<lparr>face = Face 3, lastDelay = 0, weight = 1\<rparr>]\<rparr>
        \<lparr>getName = [], getOutRecords = [], violatesScope = (\<lambda>f. getId f = 3)\<rparr> g) = Inr None
   \<and> selector_spec \<lparr>getName = [], getOutRecords = [], violatesScope = (\<lambda>f. getId f = 3)\<rparr>
        (Face 1)
        [\<lparr>face = Face 1, lastDelay = 0, weight = 1\<rparr>,
         \<lparr>face = Face 2, lastDelay = 0, weight = 1\<rparr>,
         \<lparr>face = Face 3, lastDelay = 0, weight = 1\<rparr>] 0 = Some (Face 2)"
  by (simp add: selectOutgoingFace_def scanFaces_def size_t_def firstLoop.simps firstLoop_body_def
      wrapLoop.simps in_interval_def faceIds_at_def deref_def increment_def isEligibleFace_def
      selector_spec_def WeightedFace_getId_def word_le_nat_alt Let_def)

end
